theory Spec2Isabelle
  imports Complex_Main "HOL-Library.Word"
begin

section \<open>Conventions of the embedding\<close>

text \<open>
  The development embeds \<^verbatim>\<open>wled_game.py\<close> and the index mapper of
  \<^verbatim>\<open>calibrate_wled.py\<close>.  Python integers are \<^typ>\<open>int\<close>; Python and numpy
  floating point numbers are embedded as \<^typ>\<open>real\<close> (exact arithmetic: no rounding, no
  infinities, no NaN); the \<^verbatim>\<open>uint8\<close> channels of a frame are \<^typ>\<open>8 word\<close>.
  Everything that raises an \<^verbatim>\<open>Exception\<close> in the source is a value \<open>Inl e\<close> of a sum
  type.
\<close>

datatype error = IndexError | Timeout | ConnectionError | OtherException

text \<open>Sequencing of fallible steps: the first exception ends the computation.\<close>

definition and_then :: "error + 'a \<Rightarrow> ('a \<Rightarrow> error + 'b) \<Rightarrow> error + 'b" where
  "and_then r f = (case r of Inl e \<Rightarrow> Inl e | Inr v \<Rightarrow> f v)"

text \<open>\<^verbatim>\<open>xs[i]\<close>: a negative index counts from the end, anything else out of range raises.\<close>

definition py_index :: "'a list \<Rightarrow> int \<Rightarrow> error + 'a" where
  "py_index xs i =
     (if 0 \<le> i \<and> i < int (length xs) then Inr (xs ! nat i)
      else if i < 0 \<and> - int (length xs) \<le> i then Inr (xs ! nat (int (length xs) + i))
      else Inl IndexError)"

text \<open>\<^verbatim>\<open>xs[i] = v\<close>, with the same index rules.\<close>

definition py_assign :: "'a list \<Rightarrow> int \<Rightarrow> 'a \<Rightarrow> error + 'a list" where
  "py_assign xs i v =
     (if 0 \<le> i \<and> i < int (length xs) then Inr (xs[nat i := v])
      else if i < 0 \<and> - int (length xs) \<le> i then Inr (xs[nat (int (length xs) + i) := v])
      else Inl IndexError)"

text \<open>\<^verbatim>\<open>int(x)\<close> on a float truncates towards zero.\<close>

definition py_int :: "real \<Rightarrow> int" where
  "py_int x = (if 0 \<le> x then \<lfloor>x\<rfloor> else \<lceil>x\<rceil>)"

text \<open>\<^verbatim>\<open>for x in xs: body\<close> over a state, stopping at the first exception.\<close>

fun for_each :: "'a list \<Rightarrow> ('a \<Rightarrow> 's \<Rightarrow> error + 's) \<Rightarrow> 's \<Rightarrow> error + 's" where
  "for_each [] body s = Inr s"
| "for_each (x # xs) body s = and_then (body x s) (for_each xs body)"

section \<open>Configuration constants\<close>

definition MATRIX_WIDTH :: int where "MATRIX_WIDTH = 16"
definition MATRIX_HEIGHT :: int where "MATRIX_HEIGHT = 8"
definition GAME_WIDTH :: int where "GAME_WIDTH = 320"
definition GAME_HEIGHT :: int where "GAME_HEIGHT = 200"

section \<open>Index mappers\<close>

text \<open>\<^verbatim>\<open>WLEDStreamer.rgb_to_wled_index\<close>: row-major order.\<close>

definition rgb_to_wled_index :: "int \<Rightarrow> int \<Rightarrow> int" where
  "rgb_to_wled_index x y = y * MATRIX_WIDTH + x"

text \<open>\<^verbatim>\<open>calibrate_wled.rgb_to_wled_index\<close>: two 8x8 serpentine panels.\<close>

definition calibrate_rgb_to_wled_index :: "int \<Rightarrow> int \<Rightarrow> int" where
  "calibrate_rgb_to_wled_index x y =
     (if x < 8 then
        (if y mod 2 = 0 then y * 8 + x else y * 8 + (7 - x))
      else
        (let px = x - 8;
             py_from_bottom = 7 - y;
             local_index =
               (if py_from_bottom mod 2 = 0 then py_from_bottom * 8 + (7 - px)
                else py_from_bottom * 8 + px)
         in 64 + local_index))"

section \<open>The game state\<close>

text \<open>
  \<^verbatim>\<open>RaycastGame.__init__\<close>: the fields of the game object that the control loop
  reads and writes.  A bullet impact \<^verbatim>\<open>[impact_x, timer]\<close> is a pair.
\<close>

record game =
  player_x :: real
  player_y :: real
  player_angle :: real
  gmap :: "int list list"
  move_speed :: real
  rot_speed :: real
  shooting :: bool
  muzzle_flash_timer :: int
  shot_cooldown :: int
  bullet_impacts :: "(int \<times> int) list"

definition game_map :: "int list list" where
  "game_map =
     [[1,1,1,1,1,1,1,1],
      [1,0,0,0,0,0,0,1],
      [1,0,1,0,0,1,0,1],
      [1,0,0,0,0,0,0,1],
      [1,0,1,0,0,1,0,1],
      [1,0,0,0,0,0,0,1],
      [1,0,0,1,1,0,0,1],
      [1,1,1,1,1,1,1,1]]"

definition wall_colors :: "(int \<times> int \<times> int) list" where
  "wall_colors = [(200, 50, 50), (150, 30, 30)]"

definition init_game :: game where
  "init_game =
     \<lparr> player_x = 3.5, player_y = 3.5, player_angle = 0, gmap = game_map,
       move_speed = 0.05, rot_speed = 0.05, shooting = False,
       muzzle_flash_timer = 0, shot_cooldown = 0, bullet_impacts = [] \<rparr>"

section \<open>Ray casting\<close>

text \<open>
  The test of the marching loop,
  \<^verbatim>\<open>0 <= map_y < len(self.map) and 0 <= map_x < len(self.map[0]) and self.map[map_y][map_x] == 1\<close>,
  evaluated left to right; each subscript may raise.
\<close>

definition wall_hit :: "int list list \<Rightarrow> int \<Rightarrow> int \<Rightarrow> error + bool" where
  "wall_hit m map_x map_y =
     (if 0 \<le> map_y \<and> map_y < int (length m) then
        and_then (py_index m 0) (\<lambda>row0.
          if 0 \<le> map_x \<and> map_x < int (length row0) then
            and_then (py_index m map_y) (\<lambda>row.
            and_then (py_index row map_x) (\<lambda>c. Inr (c = 1)))
          else Inr False)
      else Inr False)"

text \<open>
  \<^verbatim>\<open>for _ in range(200)\<close> of \<^verbatim>\<open>cast_ray\<close>, with the number of iterations left
  as the last argument; \<open>(px, py)\<close> is the player position, \<open>(ray_x, ray_y)\<close> the
  marched point.
\<close>

fun cast_ray_loop ::
  "int list list \<Rightarrow> real \<Rightarrow> real \<Rightarrow> real \<Rightarrow> real \<Rightarrow> real \<Rightarrow> real \<Rightarrow> nat \<Rightarrow> error + (real \<times> int)"
where
  "cast_ray_loop m px py dx dy ray_x ray_y 0 = Inr (100, 0)"
| "cast_ray_loop m px py dx dy ray_x ray_y (Suc n) =
     (let ray_x' = ray_x + dx;
          ray_y' = ray_y + dy;
          map_x = py_int ray_x';
          map_y = py_int ray_y'
      in and_then (wall_hit m map_x map_y) (\<lambda>hit.
           if hit then
             Inr (sqrt ((ray_x' - px)\<^sup>2 + (ray_y' - py)\<^sup>2), (map_x + map_y) mod 2)
           else cast_ray_loop m px py dx dy ray_x' ray_y' n))"

definition cast_ray :: "game \<Rightarrow> real \<Rightarrow> error + (real \<times> int)" where
  "cast_ray s angle =
     (let ray_x = player_x s;
          ray_y = player_y s;
          dx = cos angle * 0.02;
          dy = sin angle * 0.02
      in cast_ray_loop (gmap s) (player_x s) (player_y s) dx dy ray_x ray_y 200)"

section \<open>Rendering: the per-column computation\<close>

text \<open>
  \<^verbatim>\<open>render\<close> draws on a pygame surface; the embedding keeps what it computes from
  the rays: the ray angle of a column, the fisheye-corrected distance, and the wall strip
  and impact circle it draws.  The constant sky and floor fill and the weapon sprite
  are not part of the embedding.
\<close>

definition fov :: real where "fov = pi / 3"

definition num_rays :: int where "num_rays = GAME_WIDTH"

text \<open>\<^verbatim>\<open>ray_angle = self.player_angle - fov/2 + (i / num_rays) * fov\<close>\<close>

definition ray_angle :: "game \<Rightarrow> int \<Rightarrow> real" where
  "ray_angle s i = player_angle s - fov / 2 + (real_of_int i / real_of_int num_rays) * fov"

text \<open>\<^verbatim>\<open>dist, wall_type = self.cast_ray(ray_angle); dist *= np.cos(ray_angle - self.player_angle)\<close>\<close>

definition column_distance :: "game \<Rightarrow> int \<Rightarrow> error + (real \<times> int)" where
  "column_distance s i =
     and_then (cast_ray s (ray_angle s i)) (\<lambda>(dist, wall_type).
       Inr (dist * cos (ray_angle s i - player_angle s), wall_type))"

datatype draw =
    Line "int \<times> int \<times> int" "int \<times> int" "int \<times> int"
  | Circle "int \<times> int \<times> int" "int \<times> int" int

definition render_column :: "game \<Rightarrow> int \<Rightarrow> error + draw list" where
  "render_column s i =
     and_then (column_distance s i) (\<lambda>(dist, wall_type).
       if dist > 0.1 then
         (let wall_height = py_int (real_of_int GAME_HEIGHT / dist);
              wall_top = (GAME_HEIGHT - wall_height) div 2;
              shade = max 0 (min 1 (1 - dist / 8))
          in and_then (py_index wall_colors wall_type) (\<lambda>(r, g, b).
               Inr [Line (py_int (real_of_int r * shade), py_int (real_of_int g * shade),
                          py_int (real_of_int b * shade))
                         (i, wall_top) (i, wall_top + wall_height)]))
       else Inr [])"

text \<open>The body of \<^verbatim>\<open>for impact_x, timer in self.bullet_impacts\<close>, with its guard.\<close>

definition render_impact :: "game \<Rightarrow> int \<times> int \<Rightarrow> error + draw list" where
  "render_impact s impact =
     (case impact of (impact_x, timer) \<Rightarrow>
        if timer > 0 then
          and_then (column_distance s impact_x) (\<lambda>(dist, _).
            if dist > 0.1 then
              (let wall_height = py_int (real_of_int GAME_HEIGHT / dist);
                   wall_top = (GAME_HEIGHT - wall_height) div 2;
                   wall_center = wall_top + wall_height div 2;
                   impact_size = max 2 (py_int (real_of_int (5 * timer) / 10))
               in Inr [Circle (255, 255, 0) (impact_x, wall_center) impact_size])
            else Inr [])
        else Inr [])"

definition py_range :: "int \<Rightarrow> int list" where
  "py_range n = map int [0..<nat n]"

definition render :: "game \<Rightarrow> error + draw list" where
  "render s =
     and_then
       (for_each (py_range num_rays)
          (\<lambda>i drawn. and_then (render_column s i) (\<lambda>d. Inr (drawn @ d))) [])
       (for_each (bullet_impacts s)
          (\<lambda>impact drawn. and_then (render_impact s impact) (\<lambda>d. Inr (drawn @ d))))"

section \<open>Input handling, shooting and timers\<close>

text \<open>The snapshot \<^verbatim>\<open>pygame.key.get_pressed()\<close>, restricted to the keys that are read.\<close>

record keys =
  K_LEFT :: bool
  K_RIGHT :: bool
  K_UP :: bool
  K_DOWN :: bool
  K_a :: bool
  K_d :: bool
  K_SPACE :: bool

text \<open>
  The commit that ends each of the four movement blocks:
  \<^verbatim>\<open>if self.map[int(new_y)][int(new_x)] == 0: self.player_x = new_x; self.player_y = new_y\<close>.
  The subscripts are not guarded in the source, so they follow Python's index rules;
  \<open>map_at m x y\<close> is \<^verbatim>\<open>self.map[y][x]\<close>.
\<close>

definition map_at :: "int list list \<Rightarrow> int \<Rightarrow> int \<Rightarrow> error + int" where
  "map_at m x y = and_then (py_index m y) (\<lambda>row. py_index row x)"

definition commit_move :: "game \<Rightarrow> real \<Rightarrow> real \<Rightarrow> error + game" where
  "commit_move s new_x new_y =
     and_then (map_at (gmap s) (py_int new_x) (py_int new_y)) (\<lambda>c.
       Inr (if c = 0 then s\<lparr>player_x := new_x, player_y := new_y\<rparr> else s))"

definition shoot :: "game \<Rightarrow> error + game" where
  "shoot s =
     (let s1 = s\<lparr>shooting := True, muzzle_flash_timer := 5, shot_cooldown := 10\<rparr>
      in and_then (cast_ray s1 (player_angle s1)) (\<lambda>(dist, _).
           if dist < 10 then
             (let impact_x = GAME_WIDTH div 2
              in Inr (s1\<lparr>bullet_impacts := bullet_impacts s1 @ [(impact_x, 10)]\<rparr>))
           else Inr s1))"

definition handle_input :: "keys \<Rightarrow> game \<Rightarrow> error + game" where
  "handle_input ks s =
     (let s1 = (if K_LEFT ks then s\<lparr>player_angle := player_angle s - rot_speed s\<rparr> else s);
          s2 = (if K_RIGHT ks then s1\<lparr>player_angle := player_angle s1 + rot_speed s1\<rparr> else s1)
      in
      and_then
        (if K_UP ks then
           commit_move s2 (player_x s2 + cos (player_angle s2) * move_speed s2)
                          (player_y s2 + sin (player_angle s2) * move_speed s2)
         else Inr s2) (\<lambda>s3.
      and_then
        (if K_DOWN ks then
           commit_move s3 (player_x s3 - cos (player_angle s3) * move_speed s3)
                          (player_y s3 - sin (player_angle s3) * move_speed s3)
         else Inr s3) (\<lambda>s4.
      and_then
        (if K_a ks then
           commit_move s4 (player_x s4 + cos (player_angle s4 - pi / 2) * move_speed s4)
                          (player_y s4 + sin (player_angle s4 - pi / 2) * move_speed s4)
         else Inr s4) (\<lambda>s5.
      and_then
        (if K_d ks then
           commit_move s5 (player_x s5 + cos (player_angle s5 + pi / 2) * move_speed s5)
                          (player_y s5 + sin (player_angle s5 + pi / 2) * move_speed s5)
         else Inr s5) (\<lambda>s6.
      if K_SPACE ks \<and> shot_cooldown s6 = 0 then shoot s6 else Inr s6)))))"

definition update_timers :: "game \<Rightarrow> game" where
  "update_timers s =
     (let s1 = (if muzzle_flash_timer s > 0
                then s\<lparr>muzzle_flash_timer := muzzle_flash_timer s - 1\<rparr> else s);
          s2 = (if shot_cooldown s1 > 0
                then s1\<lparr>shot_cooldown := shot_cooldown s1 - 1\<rparr> else s1);
          s3 = s2\<lparr>bullet_impacts :=
                    map (\<lambda>(impact_x, timer). if timer > 0 then (impact_x, timer - 1)
                                               else (impact_x, timer))
                        (bullet_impacts s2)\<rparr>
      in s3\<lparr>bullet_impacts := filter (\<lambda>(impact_x, timer). timer > 0) (bullet_impacts s3)\<rparr>)"

text \<open>
  The part of the control loop that writes the game object: one iteration calls
  \<^verbatim>\<open>handle_input\<close>, then \<^verbatim>\<open>update_timers\<close>; \<open>run_ticks\<close> runs one iteration per key
  snapshot of the list.
\<close>

fun run_ticks :: "keys list \<Rightarrow> game \<Rightarrow> error + game" where
  "run_ticks [] s = Inr s"
| "run_ticks (ks # kss) s =
     and_then (handle_input ks s) (\<lambda>s'. run_ticks kss (update_timers s'))"

text \<open>
  The states of the game object between the calls of the control loop: the loop calls
  \<^verbatim>\<open>handle_input\<close> and \<^verbatim>\<open>update_timers\<close> in turn, and nothing else writes the
  fields.  Any interleaving of the two calls is admitted.
\<close>

inductive reachable :: "game \<Rightarrow> bool" where
  start: "reachable init_game"
| input: "reachable s \<Longrightarrow> handle_input ks s = Inr s' \<Longrightarrow> reachable s'"
| timers: "reachable s \<Longrightarrow> reachable (update_timers s)"

section \<open>Coordinates and device indices of the 16 x 8 matrix\<close>

definition coords :: "(int \<times> int) set" where
  "coords = {0..<16} \<times> {0..<8}"

definition device_indices :: "int set" where
  "device_indices = {0..<128}"

text \<open>The inverse of the serpentine mapper, used only to prove the bijection.\<close>

definition serpentine_inv :: "int \<Rightarrow> int \<times> int" where
  "serpentine_inv i =
     (if i < 64 then
        (let y = i div 8; c = i mod 8 in (if y mod 2 = 0 then c else 7 - c, y))
      else
        (let l = i - 64; pb = l div 8; c = l mod 8
         in (8 + (if pb mod 2 = 0 then 7 - c else c), 7 - pb)))"

section \<open>The ray caster as the specification words it\<close>

text \<open>
  A grid is rectangular when every row is as long as the first one; the map of the game
  is.  \<open>is_wall_cell\<close> is "the cell is within grid bounds and is a WALL".
\<close>

definition rectangular :: "int list list \<Rightarrow> bool" where
  "rectangular m = list_all (\<lambda>row. length row = length (m ! 0)) m"

definition is_wall_cell :: "int list list \<Rightarrow> int \<Rightarrow> int \<Rightarrow> bool" where
  "is_wall_cell m cell_x cell_y =
     (0 \<le> cell_y \<and> cell_y < int (length m) \<and>
      0 \<le> cell_x \<and> cell_x < int (length (m ! 0)) \<and>
      m ! nat cell_y ! nat cell_x = 1)"

text \<open>The point reached after \<open>k\<close> steps of magnitude 0.02 along \<open>(cos angle, sin angle)\<close>.\<close>

definition ray_point :: "game \<Rightarrow> real \<Rightarrow> nat \<Rightarrow> real \<times> real" where
  "ray_point s angle k =
     (player_x s + real k * (cos angle * 0.02), player_y s + real k * (sin angle * 0.02))"

text \<open>Step \<open>k\<close> lands on a WALL cell within grid bounds.\<close>

definition hits :: "game \<Rightarrow> real \<Rightarrow> nat \<Rightarrow> bool" where
  "hits s angle k =
     (case ray_point s angle k of
        (x, y) \<Rightarrow> is_wall_cell (gmap s) (py_int x) (py_int y))"

text \<open>
  The contract of the specification: the first of the steps 1, ..., 200 that lands on a
  WALL cell gives the Euclidean distance from the origin and the parity of the cell;
  no such step gives the sentinel distance 100 and surface 0.
\<close>

definition cast_ray_spec :: "game \<Rightarrow> real \<Rightarrow> real \<times> int" where
  "cast_ray_spec s angle =
     (case List.find (hits s angle) [1..<201] of
        None \<Rightarrow> (100, 0)
      | Some k \<Rightarrow>
          (case ray_point s angle k of
             (x, y) \<Rightarrow> (sqrt ((x - player_x s)\<^sup>2 + (y - player_y s)\<^sup>2),
                        (py_int x + py_int y) mod 2)))"

section \<open>Vocabulary for the movement and firing claims\<close>

definition no_keys :: keys where
  "no_keys = \<lparr> K_LEFT = False, K_RIGHT = False, K_UP = False, K_DOWN = False,
               K_a = False, K_d = False, K_SPACE = False \<rparr>"

definition fire_keys :: keys where
  "fire_keys = no_keys\<lparr>K_SPACE := True\<rparr>"

text \<open>The four movement actions, the key of each, and the position each proposes.\<close>

datatype move = Forward | Backward | StrafeLeft | StrafeRight

fun pressed :: "keys \<Rightarrow> move \<Rightarrow> bool" where
  "pressed ks Forward = K_UP ks"
| "pressed ks Backward = K_DOWN ks"
| "pressed ks StrafeLeft = K_a ks"
| "pressed ks StrafeRight = K_d ks"

fun proposal :: "game \<Rightarrow> move \<Rightarrow> real \<times> real" where
  "proposal s Forward =
     (player_x s + cos (player_angle s) * move_speed s,
      player_y s + sin (player_angle s) * move_speed s)"
| "proposal s Backward =
     (player_x s - cos (player_angle s) * move_speed s,
      player_y s - sin (player_angle s) * move_speed s)"
| "proposal s StrafeLeft =
     (player_x s + cos (player_angle s - pi / 2) * move_speed s,
      player_y s + sin (player_angle s - pi / 2) * move_speed s)"
| "proposal s StrafeRight =
     (player_x s + cos (player_angle s + pi / 2) * move_speed s,
      player_y s + sin (player_angle s + pi / 2) * move_speed s)"

text \<open>The heading after the rotation keys of a snapshot have been applied.\<close>

definition rotated :: "keys \<Rightarrow> game \<Rightarrow> game" where
  "rotated ks s =
     s\<lparr>player_angle := player_angle s - (if K_LEFT ks then rot_speed s else 0)
                                       + (if K_RIGHT ks then rot_speed s else 0)\<rparr>"

text \<open>The map value of the cell a position truncates to.\<close>

definition cell_of :: "game \<Rightarrow> real \<times> real \<Rightarrow> error + int" where
  "cell_of s p = map_at (gmap s) (py_int (fst p)) (py_int (snd p))"

definition position :: "game \<Rightarrow> real \<times> real" where
  "position s = (player_x s, player_y s)"

text \<open>A state in which the ray along the heading reaches no wall within 200 steps.\<close>

definition far_state :: game where
  "far_state = init_game\<lparr>player_x := 1.5\<rparr>"


section \<open>The steps of input handling and the invariant of the game state\<close>

text \<open>
  \<^verbatim>\<open>handle_input\<close> is the rotation followed by four optional movement blocks and the
  optional shot; \<open>step_move\<close> and \<open>step_fire\<close> name one block each, and
  \<open>handle_input_steps\<close> below shows that they compose to the source function.
  \<open>game_inv\<close> is the invariant carried through every reachable state.
\<close>

definition step_move :: "keys \<Rightarrow> move \<Rightarrow> game \<Rightarrow> error + game" where
  "step_move ks m s =
     (if pressed ks m then commit_move s (fst (proposal s m)) (snd (proposal s m)) else Inr s)"

definition step_fire :: "keys \<Rightarrow> game \<Rightarrow> error + game" where
  "step_fire ks s = (if K_SPACE ks \<and> shot_cooldown s = 0 then shoot s else Inr s)"

definition game_inv :: "game \<Rightarrow> bool" where
  "game_inv s =
     (gmap s = game_map \<and> move_speed s = 0.05 \<and>
      1 \<le> player_x s \<and> player_x s < 7 \<and> 1 \<le> player_y s \<and> player_y s < 7 \<and>
      cell_of s (position s) = Inr 0 \<and>
      list_all (\<lambda>(impact_x, timer). 1 \<le> timer \<and> timer \<le> 10) (bullet_impacts s) \<and>
      0 \<le> shot_cooldown s \<and> shot_cooldown s \<le> 10)"


definition backward_keys :: keys where
  "backward_keys = no_keys\<lparr>K_DOWN := True\<rparr>"


definition fired_state :: game where
  "fired_state =
     init_game\<lparr>shooting := True, muzzle_flash_timer := 5, shot_cooldown := 10,
               bullet_impacts := [(160, 10)]\<rparr>"

text \<open>The state after a shot from \<open>far_state\<close> that reached no wall.\<close>

definition missed_state :: game where
  "missed_state = far_state\<lparr>shooting := True, muzzle_flash_timer := 5, shot_cooldown := 10\<rparr>"

section \<open>The device streamer\<close>

text \<open>
  A frame is the numpy array returned by \<^verbatim>\<open>downscale_surface\<close>: rows of pixels of
  \<^verbatim>\<open>uint8\<close> channels.  \<open>frame_at frame_data y x\<close> is \<^verbatim>\<open>frame_data[y, x]\<close>.  An entry
  of \<^verbatim>\<open>ordered_leds\<close> is \<open>None\<close> (the placeholder of \<^verbatim>\<open>[None] * 128\<close>) or an
  \<^verbatim>\<open>[r, g, b]\<close> list of Python integers.
\<close>

type_synonym pixel = "8 word list"
type_synonym frame = "pixel list list"
type_synonym led = "int list"

definition frame_at :: "frame \<Rightarrow> int \<Rightarrow> int \<Rightarrow> error + pixel" where
  "frame_at frame_data y x = and_then (py_index frame_data y) (\<lambda>row. py_index row x)"

text \<open>
  The body of the inner loop of \<^verbatim>\<open>send_frame_to_wled\<close>.  The source calls the method
  \<^verbatim>\<open>self.rgb_to_wled_index\<close>, looked up on the object at the call; the embedding takes
  the mapper as the argument \<open>mapper\<close> and instantiates it below.
\<close>

definition write_pixel ::
  "(int \<Rightarrow> int \<Rightarrow> int) \<Rightarrow> frame \<Rightarrow> int \<Rightarrow> int \<Rightarrow> led option list \<Rightarrow> error + led option list"
where
  "write_pixel mapper frame_data y x ordered_leds =
     and_then (frame_at frame_data y x) (\<lambda>pixel.
     (let idx = mapper x y in
      and_then (py_index pixel 0) (\<lambda>p0.
      and_then (py_index pixel 1) (\<lambda>p1.
      and_then (py_index pixel 2) (\<lambda>p2.
        py_assign ordered_leds idx (Some [uint p0, uint p1, uint p2]))))))"

definition build_ordered_leds ::
  "(int \<Rightarrow> int \<Rightarrow> int) \<Rightarrow> frame \<Rightarrow> error + led option list"
where
  "build_ordered_leds mapper frame_data =
     for_each (py_range MATRIX_HEIGHT)
       (\<lambda>y. for_each (py_range MATRIX_WIDTH) (\<lambda>x. write_pixel mapper frame_data y x))
       (replicate (nat (MATRIX_WIDTH * MATRIX_HEIGHT)) None)"

text \<open>The JSON payload \<^verbatim>\<open>{"on": True, "bri": 255, "seg": [{"id": 0, "i": ordered_leds}]}\<close>.\<close>

record segment =
  seg_id :: int
  seg_i :: "led option list"

record payload =
  pl_on :: bool
  pl_bri :: int
  pl_seg :: "segment list"

definition wled_payload :: "led option list \<Rightarrow> payload" where
  "wled_payload ordered_leds =
     \<lparr> pl_on = True, pl_bri = 255, pl_seg = [\<lparr> seg_id = 0, seg_i = ordered_leds \<rparr>] \<rparr>"

text \<open>
  The outcome of \<^verbatim>\<open>self.session.post(WLED_API_URL, json=payload, timeout=0.05)\<close>: a
  response with its status code, or an exception (a timeout, a connection error, any
  other \<^verbatim>\<open>Exception\<close>).  The network is a parameter \<open>post\<close> of the embedding.
\<close>

datatype http_result = Response int | Raised error

text \<open>
  The fields of \<^verbatim>\<open>WLEDStreamer\<close>; \<open>printed\<close> collects the arguments of the throughput
  line written by \<^verbatim>\<open>print\<close> (frame count and rate).
\<close>

record streamer =
  frame_count :: int
  start_time :: real
  last_fps_print :: real
  running :: bool
  printed :: "(int \<times> real) list"

text \<open>
  The body of the \<^verbatim>\<open>try\<close> block: the result or the exception raised, and the streamer
  as it is at that moment.  \<open>clock = (t1, t2, t3)\<close> are the three readings of
  \<^verbatim>\<open>time.time()\<close>, in the order of the calls.
\<close>

definition send_frame_try ::
  "(int \<Rightarrow> int \<Rightarrow> int) \<Rightarrow> (payload \<Rightarrow> http_result) \<Rightarrow> real \<times> real \<times> real \<Rightarrow>
   streamer \<Rightarrow> frame \<Rightarrow> (error + bool) \<times> streamer"
where
  "send_frame_try mapper post clock st frame_data =
     (case clock of (t1, t2, t3) \<Rightarrow>
      (case build_ordered_leds mapper frame_data of
         Inl e \<Rightarrow> (Inl e, st)
       | Inr ordered_leds \<Rightarrow>
           (case post (wled_payload ordered_leds) of
              Raised e \<Rightarrow> (Inl e, st)
            | Response status_code \<Rightarrow>
                (let st1 = st\<lparr>frame_count := frame_count st + 1\<rparr>;
                     st2 = (if t1 - last_fps_print st1 \<ge> 2.0 then
                              (let elapsed = t2 - start_time st1;
                                   fps = (if elapsed > 0
                                          then real_of_int (frame_count st1) / elapsed else 0)
                               in st1\<lparr>printed := printed st1 @ [(frame_count st1, fps)],
                                      last_fps_print := t3\<rparr>)
                            else st1)
                 in (Inr (status_code = 200), st2)))))"

text \<open>\<^verbatim>\<open>try: ... except Exception as e: return False\<close>\<close>

definition send_frame_to_wled_with ::
  "(int \<Rightarrow> int \<Rightarrow> int) \<Rightarrow> (payload \<Rightarrow> http_result) \<Rightarrow> real \<times> real \<times> real \<Rightarrow>
   streamer \<Rightarrow> frame \<Rightarrow> bool \<times> streamer"
where
  "send_frame_to_wled_with mapper post clock st frame_data =
     (case send_frame_try mapper post clock st frame_data of
        (Inl e, st') \<Rightarrow> (False, st')
      | (Inr ok, st') \<Rightarrow> (ok, st'))"

definition send_frame_to_wled ::
  "(payload \<Rightarrow> http_result) \<Rightarrow> real \<times> real \<times> real \<Rightarrow> streamer \<Rightarrow> frame \<Rightarrow> bool \<times> streamer"
where
  "send_frame_to_wled = send_frame_to_wled_with rgb_to_wled_index"

section \<open>One iteration of the main loop\<close>

text \<open>
  The body of \<^verbatim>\<open>while self.running\<close> in \<^verbatim>\<open>run_with_wled_stream\<close>, on the game
  object, the streamer and \<^verbatim>\<open>last_wled_update\<close>.  The window, the event queue and the
  frame clock are not part of the embedding; \<open>downscaled\<close> stands for the result of
  \<^verbatim>\<open>downscale_surface\<close> (the Lanczos filter of the imaging library) and
  \<open>current_time\<close> for the reading of the clock before the stream.
\<close>

definition wled_frame_time :: real where
  "wled_frame_time = 1 / 20"

definition loop_body ::
  "keys \<Rightarrow> frame \<Rightarrow> (payload \<Rightarrow> http_result) \<Rightarrow> real \<Rightarrow> real \<times> real \<times> real \<Rightarrow>
   game \<times> streamer \<times> real \<Rightarrow> error + (game \<times> streamer \<times> real)"
where
  "loop_body ks downscaled post current_time clock ls =
     (case ls of (g, st, last_wled_update) \<Rightarrow>
        and_then (handle_input ks g) (\<lambda>g1.
          (let g2 = update_timers g1 in
           and_then (render g2) (\<lambda>drawn.
             if current_time - last_wled_update \<ge> wled_frame_time then
               (case send_frame_to_wled post clock st downscaled of
                  (ok, st') \<Rightarrow> Inr (g2, st', current_time))
             else Inr (g2, st, last_wled_update)))))"

section \<open>Vocabulary for the streaming claims\<close>

text \<open>An 8 x 16 frame of three-channel pixels, and the solid red one.\<close>

definition frame_shape :: "frame \<Rightarrow> bool" where
  "frame_shape frame_data =
     (length frame_data = 8 \<and>
      list_all (\<lambda>row. length row = 16 \<and> list_all (\<lambda>pixel. length pixel = 3) row) frame_data)"

definition red_frame :: frame where
  "red_frame = replicate 8 (replicate 16 [255, 0, 0])"

text \<open>The \<^verbatim>\<open>[int(pixel[0]), int(pixel[1]), int(pixel[2])]\<close> of the pixel at row \<open>y\<close>, column \<open>x\<close>.\<close>

definition led_of :: "frame \<Rightarrow> nat \<Rightarrow> nat \<Rightarrow> led" where
  "led_of frame_data y x =
     [uint (frame_data ! y ! x ! 0), uint (frame_data ! y ! x ! 1), uint (frame_data ! y ! x ! 2)]"

text \<open>
  The slot of the array that \<^verbatim>\<open>ordered_leds[idx] = ...\<close> writes (a negative index counts
  from the end), and the coordinates in the order of the two loops.
\<close>

definition slot :: "int \<Rightarrow> nat" where
  "slot idx = (if 0 \<le> idx then nat idx else nat (128 + idx))"

definition loop_coords :: "(int \<times> int) list" where
  "loop_coords = concat (map (\<lambda>y. map (Pair y) (py_range MATRIX_WIDTH)) (py_range MATRIX_HEIGHT))"


text \<open>\<^verbatim>\<open>WLEDStreamer.__init__\<close>, with the two readings of the clock it takes.\<close>

definition init_streamer :: "real \<Rightarrow> real \<Rightarrow> streamer" where
  "init_streamer t0 t1 =
     \<lparr> frame_count = 0, start_time = t0, last_fps_print = t1, running = True, printed = [] \<rparr>"

text \<open>What an iteration of the loop leaves of the game: the game object and the time of the last stream, or the exception.\<close>

definition game_after :: "error + (game \<times> streamer \<times> real) \<Rightarrow> error + (game \<times> real)" where
  "game_after r =
     (case r of Inl e \<Rightarrow> Inl e | Inr (g, st, last_wled_update) \<Rightarrow> Inr (g, last_wled_update))"

text \<open>Two networks: one that times out, one that accepts every payload.\<close>

definition timeout_post :: "payload \<Rightarrow> http_result" where
  "timeout_post p = Raised Timeout"

definition accepting_post :: "payload \<Rightarrow> http_result" where
  "accepting_post p = Response 200"

section \<open>Index mapper bijections\<close>

lemma native_index_bij:
  "bij_betw (\<lambda>(x, y). rgb_to_wled_index x y) coords device_indices"
proof (rule bij_betw_byWitness [where f' = "\<lambda>i. (i mod 16, i div 16)"])
  show "\<forall>a\<in>coords.
          (\<lambda>i. (i mod 16, i div 16)) ((\<lambda>(x, y). rgb_to_wled_index x y) a) = a"
    by (auto simp: coords_def rgb_to_wled_index_def MATRIX_WIDTH_def)
  show "\<forall>a'\<in>device_indices.
          (\<lambda>(x, y). rgb_to_wled_index x y) ((\<lambda>i. (i mod 16, i div 16)) a') = a'"
    by (auto simp: rgb_to_wled_index_def MATRIX_WIDTH_def)
  show "(\<lambda>(x, y). rgb_to_wled_index x y) ` coords \<subseteq> device_indices"
    by (auto simp: coords_def device_indices_def rgb_to_wled_index_def MATRIX_WIDTH_def)
  show "(\<lambda>i. (i mod 16, i div 16)) ` device_indices \<subseteq> coords"
    by (auto simp: coords_def device_indices_def)
qed

lemma serpentine_range:
  assumes "0 \<le> x" "x < 16" "0 \<le> y" "y < 8"
  shows "0 \<le> calibrate_rgb_to_wled_index x y \<and> calibrate_rgb_to_wled_index x y < 128"
  using assms by (auto simp: calibrate_rgb_to_wled_index_def Let_def)

lemma serpentine_inv_left:
  assumes "0 \<le> x" "x < 16" "0 \<le> y" "y < 8"
  shows "serpentine_inv (calibrate_rgb_to_wled_index x y) = (x, y)"
proof (cases "x < 8")
  case True
  have a: "(y * 8 + x) div 8 = y" "(y * 8 + x) mod 8 = x"
    using True assms by auto
  have b: "(y * 8 + (7 - x)) div 8 = y" "(y * 8 + (7 - x)) mod 8 = 7 - x"
    using True assms by auto
  have c: "y * 8 + x < 64" "y * 8 + (7 - x) < 64"
    using True assms by auto
  show ?thesis
    using True a b c
    by (simp add: calibrate_rgb_to_wled_index_def serpentine_inv_def Let_def)
next
  case False
  define px where "px = x - 8"
  define pb where "pb = 7 - y"
  have r: "0 \<le> px" "px < 8" "0 \<le> pb" "pb < 8"
    using False assms by (auto simp: px_def pb_def)
  have a: "(pb * 8 + (7 - px)) div 8 = pb" "(pb * 8 + (7 - px)) mod 8 = 7 - px"
    using r by auto
  have b: "(pb * 8 + px) div 8 = pb" "(pb * 8 + px) mod 8 = px"
    using r by auto
  have e: "calibrate_rgb_to_wled_index x y =
             64 + (if pb mod 2 = 0 then pb * 8 + (7 - px) else pb * 8 + px)"
    using False by (simp add: calibrate_rgb_to_wled_index_def Let_def px_def pb_def)
  have n: "\<not> 64 + (if pb mod 2 = 0 then pb * 8 + (7 - px) else pb * 8 + px) < 64"
    using r by auto
  have "serpentine_inv (calibrate_rgb_to_wled_index x y) = (8 + px, 7 - pb)"
    unfolding e serpentine_inv_def using n a b by (simp add: Let_def)
  then show ?thesis by (simp add: px_def pb_def)
qed

lemma serpentine_inv_range:
  assumes "0 \<le> i" "i < 128"
  shows "serpentine_inv i \<in> coords"
  using assms by (auto simp: serpentine_inv_def coords_def Let_def)

lemma serpentine_inv_right:
  assumes "0 \<le> i" "i < 128"
  shows "(\<lambda>(x, y). calibrate_rgb_to_wled_index x y) (serpentine_inv i) = i"
proof (cases "i < 64")
  case True
  define y where "y = i div 8"
  define c where "c = i mod 8"
  have r: "0 \<le> y" "y < 8" "0 \<le> c" "c < 8" "i = y * 8 + c"
    using True assms by (auto simp: y_def c_def)
  have "serpentine_inv i = (if y mod 2 = 0 then c else 7 - c, y)"
    using True by (simp add: serpentine_inv_def Let_def y_def c_def)
  then show ?thesis
    using r by (auto simp: calibrate_rgb_to_wled_index_def Let_def)
next
  case False
  define pb where "pb = (i - 64) div 8"
  define c where "c = (i - 64) mod 8"
  have r: "0 \<le> pb" "pb < 8" "0 \<le> c" "c < 8" "i = 64 + pb * 8 + c"
    using False assms by (auto simp: pb_def c_def)
  have "serpentine_inv i = (8 + (if pb mod 2 = 0 then 7 - c else c), 7 - pb)"
    using False by (simp add: serpentine_inv_def Let_def pb_def c_def)
  then show ?thesis
    using r by (auto simp: calibrate_rgb_to_wled_index_def Let_def)
qed

lemma serpentine_index_bij:
  "bij_betw (\<lambda>(x, y). calibrate_rgb_to_wled_index x y) coords device_indices"
proof (rule bij_betw_byWitness [where f' = serpentine_inv])
  show "\<forall>a\<in>coords. serpentine_inv ((\<lambda>(x, y). calibrate_rgb_to_wled_index x y) a) = a"
    by (auto simp: coords_def serpentine_inv_left)
  show "\<forall>a'\<in>device_indices.
          (\<lambda>(x, y). calibrate_rgb_to_wled_index x y) (serpentine_inv a') = a'"
    using serpentine_inv_right by (auto simp: device_indices_def)
  show "(\<lambda>(x, y). calibrate_rgb_to_wled_index x y) ` coords \<subseteq> device_indices"
    using serpentine_range by (auto simp: coords_def device_indices_def)
  show "serpentine_inv ` device_indices \<subseteq> coords"
    using serpentine_inv_range by (auto simp: device_indices_def)
qed

text \<open>
  Claim C2.  On the 16 x 8 coordinate pairs (\<open>0 \<le> x < 16\<close>, \<open>0 \<le> y < 8\<close>) the native
  row-major mapper of \<^verbatim>\<open>WLEDStreamer\<close> and the two-panel serpentine mapper of the
  calibration tool are both bijections onto the device indices \<open>0, ..., 127\<close>: every
  index is in range, none is produced twice and every one is produced.
\<close>

theorem C2_index_mappers_bijective:
  "bij_betw (\<lambda>(x, y). rgb_to_wled_index x y) coords device_indices \<and>
   bij_betw (\<lambda>(x, y). calibrate_rgb_to_wled_index x y) coords device_indices"
  using native_index_bij serpentine_index_bij by (rule conjI)

section \<open>The marching loop finds the first hit\<close>

lemma find_map_fun:
  "List.find P (map f xs) = map_option f (List.find (\<lambda>k. P (f k)) xs)"
  by (induction xs) auto

lemma wall_hit_rectangular:
  assumes "rectangular m"
  shows "wall_hit m cx cy = Inr (is_wall_cell m cx cy)"
proof (cases "0 \<le> cy \<and> cy < int (length m)")
  case False
  then show ?thesis by (auto simp: wall_hit_def is_wall_cell_def)
next
  case True
  then have ne: "0 < length m" by auto
  have r0: "py_index m 0 = Inr (m ! 0)" using ne by (simp add: py_index_def)
  have ry: "py_index m cy = Inr (m ! nat cy)" using True by (simp add: py_index_def)
  have "nat cy < length m" using True by linarith
  then have "m ! nat cy \<in> set m" by (rule nth_mem)
  then have len: "length (m ! nat cy) = length (m ! 0)"
    using assms by (simp add: rectangular_def list_all_iff)
  show ?thesis
  proof (cases "0 \<le> cx \<and> cx < int (length (m ! 0))")
    case False
    then show ?thesis using True r0 by (auto simp: wall_hit_def is_wall_cell_def and_then_def)
  next
    case inx: True
    have "py_index (m ! nat cy) cx = Inr (m ! nat cy ! nat cx)"
      using inx len by (simp add: py_index_def)
    then show ?thesis using True inx r0 ry
      by (simp add: wall_hit_def is_wall_cell_def and_then_def)
  qed
qed

lemma upt_Suc_shift: "[Suc 0..<Suc (Suc n)] = Suc 0 # map Suc [Suc 0..<Suc n]"
proof -
  have "[Suc 0..<Suc (Suc n)] = Suc 0 # [Suc (Suc 0)..<Suc (Suc n)]"
    by (rule upt_conv_Cons) simp
  also have "[Suc (Suc 0)..<Suc (Suc n)] = map Suc [Suc 0..<Suc n]"
    by (rule map_Suc_upt [symmetric])
  finally show ?thesis .
qed

lemma cast_ray_loop_find:
  assumes "rectangular m"
  shows "cast_ray_loop m px py dx dy rx ry n =
     Inr (case List.find (\<lambda>k. is_wall_cell m (py_int (rx + real k * dx)) (py_int (ry + real k * dy)))
                 [1..<Suc n] of
            None \<Rightarrow> (100, 0)
          | Some k \<Rightarrow> (sqrt ((rx + real k * dx - px)\<^sup>2 + (ry + real k * dy - py)\<^sup>2),
                       (py_int (rx + real k * dx) + py_int (ry + real k * dy)) mod 2))"
proof (induction n arbitrary: rx ry)
  case 0
  show ?case by simp
next
  case (Suc n)
  have sh: "\<And>k. rx + dx + real k * dx = rx + real (Suc k) * dx"
           "\<And>k. ry + dy + real k * dy = ry + real (Suc k) * dy"
    by (simp_all add: algebra_simps)
  show ?case
  proof (cases "is_wall_cell m (py_int (rx + dx)) (py_int (ry + dy))")
    case True
    then show ?thesis
      by (simp add: wall_hit_rectangular [OF assms] and_then_def Let_def upt_Suc_shift
               del: upt_Suc)
  next
    case False
    then show ?thesis
      by (simp add: wall_hit_rectangular [OF assms] and_then_def Let_def Suc.IH sh find_map_fun
               upt_Suc_shift option.case_eq_if option.map_sel del: upt_Suc)
  qed
qed

lemma rectangular_game_map: "rectangular game_map"
  by (simp add: rectangular_def game_map_def)

lemma step_distance:
  "sqrt ((real k * (cos a * 0.02))\<^sup>2 + (real k * (sin a * 0.02))\<^sup>2) = 0.02 * real k"
proof -
  define c where "c = cos a"
  define sn where "sn = sin a"
  have unit: "c\<^sup>2 + sn\<^sup>2 = 1" by (simp add: c_def sn_def)
  have "(real k * (c * 0.02))\<^sup>2 + (real k * (sn * 0.02))\<^sup>2
          = (0.02 * real k)\<^sup>2 * (c\<^sup>2 + sn\<^sup>2)"
    by (simp add: power2_eq_square algebra_simps)
  then have "(real k * (c * 0.02))\<^sup>2 + (real k * (sn * 0.02))\<^sup>2 = (0.02 * real k)\<^sup>2"
    by (simp only: unit mult_1_right)
  then have "sqrt ((real k * (c * 0.02))\<^sup>2 + (real k * (sn * 0.02))\<^sup>2) = \<bar>0.02 * real k\<bar>"
    by (simp only: real_sqrt_abs)
  then show ?thesis by (simp add: c_def sn_def)
qed

lemma cast_ray_eq_spec:
  assumes "rectangular (gmap s)"
  shows "cast_ray s angle = Inr (cast_ray_spec s angle)"
proof -
  have h: "hits s angle =
             (\<lambda>k. is_wall_cell (gmap s) (py_int (player_x s + real k * (cos angle * 0.02)))
                                      (py_int (player_y s + real k * (sin angle * 0.02))))"
    by (rule ext) (simp add: hits_def ray_point_def)
  have u: "[1..<201] = [1..<Suc 200]" by simp
  show ?thesis
    unfolding cast_ray_def cast_ray_spec_def Let_def cast_ray_loop_find [OF assms] h u
    by (simp add: ray_point_def del: upt_Suc cong: option.case_cong)
qed


lemma cast_ray_spec_init_ahead: "cast_ray_spec init_game 0 = (7 / 2, 0)"
  by (simp add: cast_ray_spec_def hits_def ray_point_def init_game_def is_wall_cell_def
        game_map_def py_int_def upt_conv_Cons del: upt_Suc)


section \<open>Hit distances\<close>

lemma hits_timers [simp]:
  "hits (s\<lparr>shooting := a, muzzle_flash_timer := b, shot_cooldown := c\<rparr>) angle k = hits s angle k"
  by (simp add: hits_def ray_point_def)

lemma spec_no_hit:
  assumes "\<not> (\<exists>k. 1 \<le> k \<and> k \<le> 200 \<and> hits s angle k)"
  shows "cast_ray_spec s angle = (100, 0)"
proof -
  have "List.find (hits s angle) [1..<201] = None"
    using assms by (auto simp: find_None_iff simp del: upt_Suc)
  then show ?thesis by (simp add: cast_ray_spec_def del: upt_Suc)
qed

lemma spec_first_hit:
  assumes "\<exists>k. 1 \<le> k \<and> k \<le> 200 \<and> hits s angle k"
  shows "\<exists>k. 1 \<le> k \<and> k \<le> 200 \<and> hits s angle k \<and> (\<forall>j. 1 \<le> j \<and> j < k \<longrightarrow> \<not> hits s angle j) \<and>
             cast_ray_spec s angle =
               (0.02 * real k,
                (py_int (fst (ray_point s angle k)) + py_int (snd (ray_point s angle k))) mod 2)"
proof -
  from assms obtain k0 where k0: "1 \<le> k0" "k0 \<le> 200" "hits s angle k0" by blast
  then have "k0 \<in> set [1..<201]" by simp
  with k0(3) have "List.find (hits s angle) [1..<201] \<noteq> None"
    unfolding find_None_iff by blast
  then obtain k where f: "List.find (hits s angle) [1..<201] = Some k" by auto
  then obtain i where i: "i < length [1..<201]" "hits s angle ([1..<201] ! i)"
      "k = [1..<201] ! i" "\<forall>j<i. \<not> hits s angle ([1..<201] ! j)"
    unfolding find_Some_iff by blast
  have ki: "k = 1 + i" and il: "i < 200" using i(1,3) by (simp_all del: upt_Suc)
  have first: "\<not> hits s angle j" if "1 \<le> j" "j < k" for j
  proof -
    have "j - 1 < i" using that ki by simp
    then have "\<not> hits s angle ([1..<201] ! (j - 1))" using i(4) by blast
    moreover have "[1..<201] ! (j - 1) = j" using that ki il by (simp del: upt_Suc)
    ultimately show ?thesis by simp
  qed
  have "cast_ray_spec s angle =
          (sqrt ((real k * (cos angle * 0.02))\<^sup>2 + (real k * (sin angle * 0.02))\<^sup>2),
           (py_int (fst (ray_point s angle k)) + py_int (snd (ray_point s angle k))) mod 2)"
    using f by (simp add: cast_ray_spec_def ray_point_def del: upt_Suc)
  then have "cast_ray_spec s angle =
          (0.02 * real k,
           (py_int (fst (ray_point s angle k)) + py_int (snd (ray_point s angle k))) mod 2)"
    by (simp only: step_distance)
  moreover have "hits s angle k" using i(2,3) by simp
  ultimately show ?thesis using ki il first by (intro exI [of _ k]) auto
qed


lemma cast_ray_timers [simp]:
  "cast_ray (s\<lparr>shooting := a, muzzle_flash_timer := b, shot_cooldown := c\<rparr>) angle = cast_ray s angle"
  by (simp add: cast_ray_def)

lemma shoot_result:
  assumes "rectangular (gmap s)"
  shows "shoot s =
           Inr (s\<lparr>shooting := True, muzzle_flash_timer := 5, shot_cooldown := 10,
                  bullet_impacts := bullet_impacts s @
                    (if fst (cast_ray_spec s (player_angle s)) < 10 then [(GAME_WIDTH div 2, 10)]
                     else [])\<rparr>)"
  by (simp add: shoot_def Let_def and_then_def cast_ray_eq_spec [OF assms] split_beta)

lemma spec_hit_test:
  "fst (cast_ray_spec s angle) < 10 \<longleftrightarrow> (\<exists>k. 1 \<le> k \<and> k \<le> 200 \<and> hits s angle k)"
proof (cases "\<exists>k. 1 \<le> k \<and> k \<le> 200 \<and> hits s angle k")
  case True
  from spec_first_hit [OF True] obtain k where
    "k \<le> 200" "fst (cast_ray_spec s angle) = 0.02 * real k" by auto
  then have "fst (cast_ray_spec s angle) \<le> 4" by simp
  with True show ?thesis by simp
next
  case False
  with spec_no_hit [OF False] show ?thesis by simp
qed

text \<open>
  Claim C9.  Over exact real arithmetic and on a rectangular grid, \<^verbatim>\<open>cast_ray\<close>
  returns a pair \<open>(d, w)\<close>.  If some step \<open>k\<close> with \<open>1 \<le> k \<le> 200\<close> lands on a WALL cell,
  then for the first such \<open>k\<close> the distance is exactly \<open>0.02 * k\<close>, so \<open>0 < d \<le> 4 < 100\<close>;
  otherwise the result is the sentinel \<open>(100, 0)\<close>.  Hence the test \<open>d < 10\<close> succeeds
  exactly when the ray hit a wall, and \<^verbatim>\<open>shoot\<close> appends its impact exactly when the
  ray along the heading hit a wall.
\<close>

theorem C9_hit_distance:
  assumes "rectangular (gmap s)"
  shows "(\<exists>d w. cast_ray s angle = Inr (d, w) \<and>
            (if \<exists>k. 1 \<le> k \<and> k \<le> 200 \<and> hits s angle k
             then \<exists>k. 1 \<le> k \<and> k \<le> 200 \<and> hits s angle k \<and>
                      (\<forall>j. 1 \<le> j \<and> j < k \<longrightarrow> \<not> hits s angle j) \<and>
                      d = 0.02 * real k \<and> 0 < d \<and> d \<le> 4 \<and> d < 100
             else d = 100 \<and> w = 0) \<and>
            (d < 10 \<longleftrightarrow> (\<exists>k. 1 \<le> k \<and> k \<le> 200 \<and> hits s angle k))) \<and>
         (\<exists>s'. shoot s = Inr s' \<and>
            bullet_impacts s' = bullet_impacts s @
              (if \<exists>k. 1 \<le> k \<and> k \<le> 200 \<and> hits s (player_angle s) k
               then [(GAME_WIDTH div 2, 10)] else []))"
proof (rule conjI)
  obtain d w where dw: "cast_ray_spec s angle = (d, w)" by (cases "cast_ray_spec s angle")
  have run: "cast_ray s angle = Inr (d, w)"
    using cast_ray_eq_spec [OF assms, of angle] dw by simp
  have test: "d < 10 \<longleftrightarrow> (\<exists>k. 1 \<le> k \<and> k \<le> 200 \<and> hits s angle k)"
    using spec_hit_test [of s angle] dw by simp
  have shape: "if \<exists>k. 1 \<le> k \<and> k \<le> 200 \<and> hits s angle k
             then \<exists>k. 1 \<le> k \<and> k \<le> 200 \<and> hits s angle k \<and>
                      (\<forall>j. 1 \<le> j \<and> j < k \<longrightarrow> \<not> hits s angle j) \<and>
                      d = 0.02 * real k \<and> 0 < d \<and> d \<le> 4 \<and> d < 100
             else d = 100 \<and> w = 0"
  proof (cases "\<exists>k. 1 \<le> k \<and> k \<le> 200 \<and> hits s angle k")
    case True
    from spec_first_hit [OF True] obtain k where k: "1 \<le> k" "k \<le> 200" "hits s angle k"
        "\<forall>j. 1 \<le> j \<and> j < k \<longrightarrow> \<not> hits s angle j" "d = 0.02 * real k"
      using dw by auto
    have "0 < d" "d \<le> 4" "d < 100" using k(1,2,5) by simp_all
    with k True show ?thesis by auto
  next
    case False
    with spec_no_hit [OF False] dw show ?thesis by simp
  qed
  show "\<exists>d w. cast_ray s angle = Inr (d, w) \<and>
            (if \<exists>k. 1 \<le> k \<and> k \<le> 200 \<and> hits s angle k
             then \<exists>k. 1 \<le> k \<and> k \<le> 200 \<and> hits s angle k \<and>
                      (\<forall>j. 1 \<le> j \<and> j < k \<longrightarrow> \<not> hits s angle j) \<and>
                      d = 0.02 * real k \<and> 0 < d \<and> d \<le> 4 \<and> d < 100
             else d = 100 \<and> w = 0) \<and>
            (d < 10 \<longleftrightarrow> (\<exists>k. 1 \<le> k \<and> k \<le> 200 \<and> hits s angle k))"
    using run shape test by blast
next
  show "\<exists>s'. shoot s = Inr s' \<and>
            bullet_impacts s' = bullet_impacts s @
              (if \<exists>k. 1 \<le> k \<and> k \<le> 200 \<and> hits s (player_angle s) k
               then [(GAME_WIDTH div 2, 10)] else [])"
    unfolding shoot_result [OF assms] spec_hit_test by simp
qed

lemma hits_init_175: "hits init_game 0 175"
  by (simp add: hits_def ray_point_def init_game_def is_wall_cell_def game_map_def py_int_def)

theorem C9_hit_distance_witness:
  "rectangular (gmap init_game) \<and> hits init_game 0 175 \<and>
   (\<exists>d w. cast_ray init_game 0 = Inr (d, w) \<and> 0 < d \<and> d \<le> 4) \<and>
   (\<exists>s'. shoot init_game = Inr s' \<and> bullet_impacts s' = [(160, 10)])"
proof -
  have r: "rectangular (gmap init_game)"
    by (simp add: init_game_def rectangular_game_map)
  have h: "\<exists>k. 1 \<le> k \<and> k \<le> 200 \<and> hits init_game 0 k"
    using hits_init_175 by (intro exI [of _ 175]) simp
  have a: "player_angle init_game = 0" "bullet_impacts init_game = []"
    by (simp_all add: init_game_def)
  from C9_hit_distance [OF r, of 0] h a
  have "(\<exists>d w. cast_ray init_game 0 = Inr (d, w) \<and> 0 < d \<and> d \<le> 4)"
    and "(\<exists>s'. shoot init_game = Inr s' \<and> bullet_impacts s' = [(160, 10)])"
    by (auto simp: GAME_WIDTH_def)
  with r hits_init_175 show ?thesis by blast
qed

section \<open>Fisheye correction at the centre column\<close>



section \<open>Reachable states keep the invariant\<close>

lemma game_map_empty_interior:
  assumes "0 \<le> i" "i \<le> 7" "0 \<le> j" "j \<le> 7" "game_map ! nat j ! nat i = 0"
  shows "1 \<le> i \<and> i \<le> 6 \<and> 1 \<le> j \<and> j \<le> 6"
proof -
  have i: "i \<in> {0, 1, 2, 3, 4, 5, 6, 7}" using assms(1,2) by auto
  have j: "j \<in> {0, 1, 2, 3, 4, 5, 6, 7}" using assms(3,4) by auto
  show ?thesis using i j assms(5) by (auto simp: game_map_def)
qed

lemma map_at_game_map:
  assumes "0 \<le> i" "i \<le> 7" "0 \<le> j" "j \<le> 7"
  shows "map_at game_map i j = Inr (game_map ! nat j ! nat i)"
proof -
  have lj: "length game_map = 8" by (simp add: game_map_def)
  have "nat j < 8" using assms by linarith
  then have "nat j \<in> {0, 1, 2, 3, 4, 5, 6, 7}" by auto
  then have li: "length (game_map ! nat j) = 8" by (auto simp: game_map_def)
  show ?thesis using assms lj li by (simp add: map_at_def py_index_def and_then_def)
qed

lemma py_int_nonneg: "0 \<le> x \<Longrightarrow> py_int x = \<lfloor>x\<rfloor>"
  by (simp add: py_int_def)


lemma handle_input_steps:
  "handle_input ks s =
     and_then (step_move ks Forward (rotated ks s)) (\<lambda>s3.
     and_then (step_move ks Backward s3) (\<lambda>s4.
     and_then (step_move ks StrafeLeft s4) (\<lambda>s5.
     and_then (step_move ks StrafeRight s5) (\<lambda>s6. step_fire ks s6))))"
proof -
  have r: "(let s1 = (if K_LEFT ks then s\<lparr>player_angle := player_angle s - rot_speed s\<rparr> else s);
                s2 = (if K_RIGHT ks then s1\<lparr>player_angle := player_angle s1 + rot_speed s1\<rparr> else s1)
            in f s2) = f (rotated ks s)" for f :: "game \<Rightarrow> error + game"
    by (simp add: rotated_def Let_def)
  show ?thesis
    unfolding handle_input_def r step_move_def step_fire_def pressed.simps proposal.simps
      fst_conv snd_conv
    by (rule refl)
qed

lemma inv_init: "game_inv init_game"
  by (simp add: game_inv_def init_game_def cell_of_def position_def map_at_game_map py_int_def)
    (simp add: game_map_def)

lemma commit_move_inv:
  assumes inv: "game_inv s" and dx: "\<bar>nx - player_x s\<bar> \<le> 0.05" and dy: "\<bar>ny - player_y s\<bar> \<le> 0.05"
  shows "\<exists>s'. commit_move s nx ny = Inr s' \<and> game_inv s'"
proof -
  from inv have g: "gmap s = game_map" and px: "1 \<le> player_x s" "player_x s < 7"
    and py: "1 \<le> player_y s" "player_y s < 7"
    by (simp_all add: game_inv_def)
  have nx: "0.95 \<le> nx" "nx < 7.05" using dx px by (simp_all add: abs_if split: if_splits)
  have ny: "0.95 \<le> ny" "ny < 7.05" using dy py by (simp_all add: abs_if split: if_splits)
  define i where "i = py_int nx"
  define j where "j = py_int ny"
  have i: "0 \<le> i" "i \<le> 7" "i = \<lfloor>nx\<rfloor>" using nx by (simp_all add: i_def py_int_def)
  have j: "0 \<le> j" "j \<le> 7" "j = \<lfloor>ny\<rfloor>" using ny by (simp_all add: j_def py_int_def)
  have at: "map_at (gmap s) (py_int nx) (py_int ny) = Inr (game_map ! nat j ! nat i)"
    using map_at_game_map [OF i(1,2) j(1,2)] by (simp add: g i_def j_def)
  show ?thesis
  proof (cases "game_map ! nat j ! nat i = 0")
    case False
    then have "commit_move s nx ny = Inr s"
      by (simp add: commit_move_def at and_then_def)
    with inv show ?thesis by simp
  next
    case True
    from game_map_empty_interior [OF i(1,2) j(1,2) True]
    have b: "1 \<le> i" "i \<le> 6" "1 \<le> j" "j \<le> 6" by simp_all
    have r: "1 \<le> nx" "nx < 7" "1 \<le> ny" "ny < 7"
      using b i(3) j(3) by (simp_all add: le_floor_iff floor_le_iff)
    have c: "commit_move s nx ny = Inr (s\<lparr>player_x := nx, player_y := ny\<rparr>)"
      using True by (simp add: commit_move_def at and_then_def)
    have "game_inv (s\<lparr>player_x := nx, player_y := ny\<rparr>)"
      using inv r at True
      by (simp add: game_inv_def cell_of_def position_def)
    with c show ?thesis by simp
  qed
qed


lemma and_then_Inr: "r = Inr v \<Longrightarrow> and_then r f = f v"
  by (simp add: and_then_def)

lemma and_then_eq_Inr:
  "and_then r f = Inr w \<longleftrightarrow> (\<exists>v. r = Inr v \<and> f v = Inr w)"
  by (cases r) (simp_all add: and_then_def)

lemma proposal_close:
  assumes "move_speed s = 0.05"
  shows "\<bar>fst (proposal s m) - player_x s\<bar> \<le> 0.05 \<and> \<bar>snd (proposal s m) - player_y s\<bar> \<le> 0.05"
proof -
  have c: "\<bar>cos a * move_speed s\<bar> \<le> 0.05" for a :: real
    unfolding assms using abs_cos_le_one [of a] by (simp add: abs_mult)
  have sn: "\<bar>sin a * move_speed s\<bar> \<le> 0.05" for a :: real
    unfolding assms using abs_sin_le_one [of a] by (simp add: abs_mult)
  show ?thesis
  proof (cases m)
    case Forward
    with c [of "player_angle s"] sn [of "player_angle s"] show ?thesis by simp
  next
    case Backward
    with c [of "player_angle s"] sn [of "player_angle s"] show ?thesis by simp
  next
    case StrafeLeft
    with c [of "player_angle s - pi / 2"] sn [of "player_angle s - pi / 2"] show ?thesis by simp
  next
    case StrafeRight
    with c [of "player_angle s + pi / 2"] sn [of "player_angle s + pi / 2"] show ?thesis by simp
  qed
qed

lemma step_move_inv:
  assumes "game_inv s"
  shows "\<exists>s'. step_move ks m s = Inr s' \<and> game_inv s'"
proof (cases "pressed ks m")
  case False
  with assms show ?thesis by (simp add: step_move_def)
next
  case True
  have "move_speed s = 0.05" using assms by (simp add: game_inv_def)
  from proposal_close [OF this, of m]
  have "\<exists>s'. commit_move s (fst (proposal s m)) (snd (proposal s m)) = Inr s' \<and> game_inv s'"
    by (intro commit_move_inv [OF assms]) simp_all
  with True show ?thesis by (simp add: step_move_def)
qed

lemma rotated_inv: "game_inv (rotated ks s) = game_inv s"
  by (simp add: game_inv_def rotated_def cell_of_def position_def)

lemma inv_rectangular: "game_inv s \<Longrightarrow> rectangular (gmap s)"
  by (simp add: game_inv_def rectangular_game_map)

lemma step_fire_inv:
  assumes "game_inv s"
  shows "\<exists>s'. step_fire ks s = Inr s' \<and> game_inv s'"
proof (cases "K_SPACE ks \<and> shot_cooldown s = 0")
  case False
  with assms show ?thesis by (auto simp: step_fire_def)
next
  case True
  have "game_inv (s\<lparr>shooting := True, muzzle_flash_timer := 5, shot_cooldown := 10,
                    bullet_impacts := bullet_impacts s @
                      (if fst (cast_ray_spec s (player_angle s)) < 10 then [(GAME_WIDTH div 2, 10)]
                       else [])\<rparr>)"
    using assms by (auto simp: game_inv_def cell_of_def position_def)
  with True shoot_result [OF inv_rectangular [OF assms]] show ?thesis
    by (simp add: step_fire_def)
qed

lemma handle_input_inv:
  assumes "game_inv s"
  shows "\<exists>s'. handle_input ks s = Inr s' \<and> game_inv s'"
proof -
  have "game_inv (rotated ks s)" using assms by (simp add: rotated_inv)
  from step_move_inv [OF this] obtain s3 where
    s3: "step_move ks Forward (rotated ks s) = Inr s3" "game_inv s3" by blast
  from step_move_inv [OF s3(2)] obtain s4 where
    s4: "step_move ks Backward s3 = Inr s4" "game_inv s4" by blast
  from step_move_inv [OF s4(2)] obtain s5 where
    s5: "step_move ks StrafeLeft s4 = Inr s5" "game_inv s5" by blast
  from step_move_inv [OF s5(2)] obtain s6 where
    s6: "step_move ks StrafeRight s5 = Inr s6" "game_inv s6" by blast
  from step_fire_inv [OF s6(2)] obtain s7 where
    s7: "step_fire ks s6 = Inr s7" "game_inv s7" by blast
  have "handle_input ks s = Inr s7"
    unfolding handle_input_steps
    by (simp add: and_then_Inr [OF s3(1)] and_then_Inr [OF s4(1)] and_then_Inr [OF s5(1)]
          and_then_Inr [OF s6(1)] s7(1))
  with s7(2) show ?thesis by blast
qed

lemma update_timers_impacts:
  "bullet_impacts (update_timers s) =
     filter (\<lambda>(impact_x, timer). timer > 0)
       (map (\<lambda>(impact_x, timer). if timer > 0 then (impact_x, timer - 1) else (impact_x, timer))
          (bullet_impacts s))"
  by (simp add: update_timers_def Let_def)

lemma update_timers_inv:
  assumes "game_inv s"
  shows "game_inv (update_timers s)"
proof -
  have fixed: "gmap (update_timers s) = gmap s" "move_speed (update_timers s) = move_speed s"
    "player_x (update_timers s) = player_x s" "player_y (update_timers s) = player_y s"
    by (simp_all add: update_timers_def Let_def)
  have cd: "0 \<le> shot_cooldown (update_timers s)" "shot_cooldown (update_timers s) \<le> 10"
    using assms by (simp_all add: update_timers_def Let_def game_inv_def)
  have imp: "list_all (\<lambda>(impact_x, timer). 1 \<le> timer \<and> timer \<le> 10)
               (bullet_impacts (update_timers s))"
    using assms unfolding update_timers_impacts
    by (auto simp: game_inv_def list_all_iff)
  show ?thesis
    using assms fixed cd imp by (auto simp: game_inv_def cell_of_def position_def)
qed

lemma reachable_inv: "reachable s \<Longrightarrow> game_inv s"
proof (induction rule: reachable.induct)
  case start
  show ?case by (rule inv_init)
next
  case (input s ks s')
  from handle_input_inv [OF input.IH, of ks] input.hyps(2) show ?case by simp
next
  case (timers s)
  then show ?case by (simp add: update_timers_inv)
qed

section \<open>Movement never enters a wall\<close>
















section \<open>Lifetimes of bullet impacts\<close>

lemma shoot_impacts_cases:
  assumes "shoot t = Inr t'"
  shows "bullet_impacts t' = bullet_impacts t \<or>
         bullet_impacts t' = bullet_impacts t @ [(GAME_WIDTH div 2, 10)]"
  using assms
  by (auto simp: shoot_def Let_def and_then_eq_Inr split: if_splits prod.splits)

lemma guard_always_true:
  assumes "list_all (\<lambda>(impact_x, timer). 1 \<le> timer \<and> timer \<le> 10) imps"
  shows "filter (\<lambda>(impact_x, timer). timer > (0::int)) imps = imps"
  using assms by (induction imps) auto

lemma shoot_from_start: "shoot init_game = Inr fired_state"
proof -
  have r: "rectangular (gmap init_game)" by (simp add: init_game_def rectangular_game_map)
  have f: "player_angle init_game = 0" "bullet_impacts init_game = []"
    by (simp_all add: init_game_def)
  show ?thesis
    unfolding shoot_result [OF r] f fired_state_def
    by (simp add: cast_ray_spec_init_ahead GAME_WIDTH_def)
qed

lemma fire_from_start: "handle_input fire_keys init_game = Inr fired_state"
proof -
  have c: "shot_cooldown init_game = 0" by (simp add: init_game_def)
  have k: "rotated fire_keys init_game = init_game"
    by (simp add: rotated_def fire_keys_def no_keys_def)
  show ?thesis
    unfolding handle_input_steps k
    by (simp add: step_move_def step_fire_def fire_keys_def no_keys_def and_then_def c
          shoot_from_start)
qed

text \<open>
  Claim C10.  In every reachable state (before and after \<^verbatim>\<open>update_timers\<close>, never
  inside it) every bullet impact has a remaining lifetime between 1 and 10, so the guard
  \<^verbatim>\<open>timer > 0\<close> of the renderer holds for each of them; \<^verbatim>\<open>shoot\<close> appends
  nothing or the single impact \<open>(GAME_WIDTH div 2, 10)\<close>; and \<^verbatim>\<open>update_timers\<close>
  decrements each positive lifetime by one and then drops the impacts whose lifetime is
  not positive.
\<close>

theorem C10_impact_lifetimes:
  "(reachable s \<longrightarrow>
      list_all (\<lambda>(impact_x, timer). 1 \<le> timer \<and> timer \<le> 10) (bullet_impacts s) \<and>
      filter (\<lambda>(impact_x, timer). timer > 0) (bullet_impacts s) = bullet_impacts s) \<and>
   (shoot t = Inr t' \<longrightarrow>
      bullet_impacts t' = bullet_impacts t \<or>
      bullet_impacts t' = bullet_impacts t @ [(GAME_WIDTH div 2, 10)]) \<and>
   bullet_impacts (update_timers u) =
     filter (\<lambda>(impact_x, timer). timer > 0)
       (map (\<lambda>(impact_x, timer). if timer > 0 then (impact_x, timer - 1) else (impact_x, timer))
          (bullet_impacts u))"
proof (intro conjI impI)
  assume "reachable s"
  then have "game_inv s" by (rule reachable_inv)
  then show a: "list_all (\<lambda>(impact_x, timer). 1 \<le> timer \<and> timer \<le> 10) (bullet_impacts s)"
    by (simp add: game_inv_def)
  then show "filter (\<lambda>(impact_x, timer). timer > 0) (bullet_impacts s) = bullet_impacts s"
    by (rule guard_always_true)
next
  assume "shoot t = Inr t'"
  then show "bullet_impacts t' = bullet_impacts t \<or>
      bullet_impacts t' = bullet_impacts t @ [(GAME_WIDTH div 2, 10)]"
    by (rule shoot_impacts_cases)
next
  show "bullet_impacts (update_timers u) =
     filter (\<lambda>(impact_x, timer). timer > 0)
       (map (\<lambda>(impact_x, timer). if timer > 0 then (impact_x, timer - 1) else (impact_x, timer))
          (bullet_impacts u))"
    by (rule update_timers_impacts)
qed

lemma reachable_fired: "reachable fired_state"
  using reachable.input [OF reachable.start fire_from_start] .

theorem C10_impact_lifetimes_witness:
  "reachable (update_timers fired_state) \<and>
   bullet_impacts fired_state = [(160, 10)] \<and>
   bullet_impacts (update_timers fired_state) = [(160, 9)] \<and>
   list_all (\<lambda>(impact_x, timer). 1 \<le> timer \<and> timer \<le> 10)
     (bullet_impacts (update_timers fired_state)) \<and>
   shoot init_game = Inr fired_state"
proof -
  have r: "reachable (update_timers fired_state)"
    using reachable.timers [OF reachable_fired] .
  have i: "bullet_impacts fired_state = [(160, 10)]" by (simp add: fired_state_def)
  from C10_impact_lifetimes [of "update_timers fired_state" init_game fired_state fired_state]
    r i shoot_from_start
  show ?thesis by simp
qed

section \<open>Firing and the cooldown window\<close>

lemma shoot_timers:
  assumes "shoot s = Inr s'"
  shows "shot_cooldown s' = 10 \<and> muzzle_flash_timer s' = 5 \<and>
         (\<exists>d w. cast_ray s' (player_angle s') = Inr (d, w) \<and>
            bullet_impacts s' = bullet_impacts s @
              (if d < 10 then [(GAME_WIDTH div 2, 10)] else []))"
proof -
  from assms obtain d w where c: "cast_ray s (player_angle s) = Inr (d, w)"
    by (cases "cast_ray s (player_angle s)") (auto simp: shoot_def Let_def and_then_def)
  show ?thesis
  proof (cases "d < 10")
    case True
    with assms c have r: "s' = s\<lparr>shooting := True, muzzle_flash_timer := 5, shot_cooldown := 10,
                         bullet_impacts := bullet_impacts s @ [(GAME_WIDTH div 2, 10)]\<rparr>"
      by (simp add: shoot_def Let_def and_then_def)
    have "cast_ray s' (player_angle s') = cast_ray s (player_angle s)"
      by (simp add: r cast_ray_def)
    with c True show ?thesis by (simp add: r)
  next
    case False
    with assms c have r: "s' = s\<lparr>shooting := True, muzzle_flash_timer := 5, shot_cooldown := 10\<rparr>"
      by (simp add: shoot_def Let_def and_then_def)
    have "cast_ray s' (player_angle s') = cast_ray s (player_angle s)"
      by (simp add: r cast_ray_def)
    with c False show ?thesis by (simp add: r)
  qed
qed

lemma step_move_timers:
  assumes "step_move ks m s = Inr s'"
  shows "shot_cooldown s' = shot_cooldown s \<and> muzzle_flash_timer s' = muzzle_flash_timer s \<and>
         bullet_impacts s' = bullet_impacts s"
  using assms by (auto simp: step_move_def commit_move_def and_then_eq_Inr split: if_splits)

lemma handle_input_fire:
  assumes run: "handle_input ks s = Inr s'"
  shows "(if K_SPACE ks \<and> shot_cooldown s = 0
          then shot_cooldown s' = 10 \<and> muzzle_flash_timer s' = 5 \<and>
               (\<exists>d w. cast_ray s' (player_angle s') = Inr (d, w) \<and>
                  bullet_impacts s' = bullet_impacts s @
                    (if d < 10 then [(GAME_WIDTH div 2, 10)] else []))
          else shot_cooldown s' = shot_cooldown s \<and>
               muzzle_flash_timer s' = muzzle_flash_timer s \<and>
               bullet_impacts s' = bullet_impacts s)"
proof -
  from run obtain s3 s4 s5 s6 where
    st: "step_move ks Forward (rotated ks s) = Inr s3" "step_move ks Backward s3 = Inr s4"
        "step_move ks StrafeLeft s4 = Inr s5" "step_move ks StrafeRight s5 = Inr s6"
        "step_fire ks s6 = Inr s'"
    unfolding handle_input_steps and_then_eq_Inr by blast
  have t: "shot_cooldown s6 = shot_cooldown s" "muzzle_flash_timer s6 = muzzle_flash_timer s"
          "bullet_impacts s6 = bullet_impacts s"
    using step_move_timers [OF st(1)] step_move_timers [OF st(2)] step_move_timers [OF st(3)]
      step_move_timers [OF st(4)]
    by (simp_all add: rotated_def)
  show ?thesis
  proof (cases "K_SPACE ks \<and> shot_cooldown s = 0")
    case True
    then have "shoot s6 = Inr s'" using st(5) t by (simp add: step_fire_def)
    from shoot_timers [OF this] True t show ?thesis by simp
  next
    case False
    then have "s' = s6" using st(5) t by (auto simp: step_fire_def)
    with False t show ?thesis by auto
  qed
qed

lemma aged_impacts_cong:
  assumes "bullet_impacts a = bullet_impacts b"
  shows "bullet_impacts ((update_timers ^^ n) a) = bullet_impacts ((update_timers ^^ n) b)"
proof (induction n)
  case 0
  from assms show ?case by simp
next
  case (Suc n)
  then show ?case by (simp add: update_timers_impacts)
qed

lemma update_timers_cooldown:
  "shot_cooldown (update_timers s) = (if shot_cooldown s > 0 then shot_cooldown s - 1 else shot_cooldown s)"
  by (simp add: update_timers_def Let_def)

lemma run_ticks_quiet:
  assumes "run_ticks kss t = Inr t2" and "int (length kss) \<le> shot_cooldown t"
  shows "shot_cooldown t2 = shot_cooldown t - int (length kss) \<and>
         bullet_impacts t2 = bullet_impacts ((update_timers ^^ length kss) t)"
  using assms
proof (induction kss arbitrary: t)
  case Nil
  then show ?case by simp
next
  case (Cons ks kss)
  from Cons.prems(1) obtain t' where
    h: "handle_input ks t = Inr t'" and rest: "run_ticks kss (update_timers t') = Inr t2"
    by (auto simp: and_then_eq_Inr)
  have pos: "shot_cooldown t > 0" using Cons.prems(2) by simp
  from handle_input_fire [OF h] pos
  have same: "shot_cooldown t' = shot_cooldown t" "bullet_impacts t' = bullet_impacts t"
    by simp_all
  have cd: "shot_cooldown (update_timers t') = shot_cooldown t - 1"
    using pos same by (simp add: update_timers_cooldown)
  have "int (length kss) \<le> shot_cooldown (update_timers t')"
    using Cons.prems(2) cd by simp
  from Cons.IH [OF rest this]
  have a: "shot_cooldown t2 = shot_cooldown (update_timers t') - int (length kss)"
    and b: "bullet_impacts t2 = bullet_impacts ((update_timers ^^ length kss) (update_timers t'))"
    by simp_all
  have "bullet_impacts (update_timers t') = bullet_impacts (update_timers t)"
    using same by (simp add: update_timers_impacts)
  from aged_impacts_cong [OF this, of "length kss"] b
  have "bullet_impacts t2 = bullet_impacts ((update_timers ^^ length (ks # kss)) t)"
    by (simp add: funpow_swap1)
  with a cd show ?case by simp
qed

text \<open>
  Claim C6, as amended.  A fire request is honoured only when it is made with
  \<open>shot_cooldown = 0\<close>: otherwise \<^verbatim>\<open>handle_input\<close> leaves the cooldown, the muzzle
  flash timer and the impact list as they were.  An honoured request sets the cooldown
  to 10 and the muzzle flash timer to 5, casts a ray along the heading and appends the
  impact \<open>(GAME_WIDTH div 2, 10)\<close> exactly when the returned distance is below 10.  During
  the up to nine iterations that follow, whatever keys are pressed, the cooldown is only
  decremented and the impact list only ages: the requests of one cooldown window produce
  one cooldown reset and at most one impact (one when the ray hit, none otherwise).
\<close>

theorem C6_fire_cooldown_window:
  "((shot_cooldown t \<noteq> 0 \<or> \<not> K_SPACE kt) \<and> handle_input kt t = Inr t'
      \<longrightarrow> shot_cooldown t' = shot_cooldown t \<and> muzzle_flash_timer t' = muzzle_flash_timer t \<and>
          bullet_impacts t' = bullet_impacts t) \<and>
   (shot_cooldown s = 0 \<and> K_SPACE ks \<and> handle_input ks s = Inr s1 \<and>
    length kss \<le> 9 \<and> run_ticks kss (update_timers s1) = Inr s2
      \<longrightarrow> shot_cooldown s1 = 10 \<and> muzzle_flash_timer s1 = 5 \<and>
          (\<exists>d w. cast_ray s1 (player_angle s1) = Inr (d, w) \<and>
             bullet_impacts s1 = bullet_impacts s @
               (if d < 10 then [(GAME_WIDTH div 2, 10)] else [])) \<and>
          shot_cooldown s2 = 9 - int (length kss) \<and>
          bullet_impacts s2 = bullet_impacts ((update_timers ^^ Suc (length kss)) s1))"
proof (rule conjI [OF impI impI])
  assume "(shot_cooldown t \<noteq> 0 \<or> \<not> K_SPACE kt) \<and> handle_input kt t = Inr t'"
  then show "shot_cooldown t' = shot_cooldown t \<and> muzzle_flash_timer t' = muzzle_flash_timer t \<and>
          bullet_impacts t' = bullet_impacts t"
    using handle_input_fire [of kt t t'] by auto
next
  assume a: "shot_cooldown s = 0 \<and> K_SPACE ks \<and> handle_input ks s = Inr s1 \<and>
    length kss \<le> 9 \<and> run_ticks kss (update_timers s1) = Inr s2"
  then have first: "shot_cooldown s1 = 10 \<and> muzzle_flash_timer s1 = 5 \<and>
          (\<exists>d w. cast_ray s1 (player_angle s1) = Inr (d, w) \<and>
             bullet_impacts s1 = bullet_impacts s @
               (if d < 10 then [(GAME_WIDTH div 2, 10)] else []))"
    using handle_input_fire [of ks s s1] by simp
  have cd: "shot_cooldown (update_timers s1) = 9"
    using first by (simp add: update_timers_cooldown)
  from a have "run_ticks kss (update_timers s1) = Inr s2"
    and "int (length kss) \<le> shot_cooldown (update_timers s1)"
    using cd by simp_all
  from run_ticks_quiet [OF this] cd
  have later: "shot_cooldown s2 = 9 - int (length kss) \<and>
          bullet_impacts s2 = bullet_impacts ((update_timers ^^ Suc (length kss)) s1)"
    by (simp add: funpow_swap1)
  from first later show "shot_cooldown s1 = 10 \<and> muzzle_flash_timer s1 = 5 \<and>
          (\<exists>d w. cast_ray s1 (player_angle s1) = Inr (d, w) \<and>
             bullet_impacts s1 = bullet_impacts s @
               (if d < 10 then [(GAME_WIDTH div 2, 10)] else [])) \<and>
          shot_cooldown s2 = 9 - int (length kss) \<and>
          bullet_impacts s2 = bullet_impacts ((update_timers ^^ Suc (length kss)) s1)"
    by blast
qed

lemma fire_ignored:
  assumes "shot_cooldown x \<noteq> 0"
  shows "handle_input fire_keys x = Inr x"
proof -
  have k: "rotated fire_keys x = x" by (simp add: rotated_def fire_keys_def no_keys_def)
  show ?thesis
    unfolding handle_input_steps k using assms
    by (simp add: step_move_def step_fire_def fire_keys_def no_keys_def and_then_def)
qed

lemma second_request_ignored:
  assumes "shot_cooldown x \<noteq> 0"
  shows "run_ticks [fire_keys] x = Inr (update_timers x)"
  by (simp add: fire_ignored [OF assms] and_then_def)

lemma fired_aged_twice:
  "update_timers (update_timers fired_state) =
     init_game\<lparr>shooting := True, muzzle_flash_timer := 3, shot_cooldown := 8,
               bullet_impacts := [(160, 8)]\<rparr>"
  by (simp add: update_timers_def fired_state_def Let_def)

theorem C6_fire_cooldown_window_witness:
  "shot_cooldown init_game = 0 \<and> K_SPACE fire_keys \<and>
   handle_input fire_keys init_game = Inr fired_state \<and>
   run_ticks [fire_keys] (update_timers fired_state) = Inr (update_timers (update_timers fired_state)) \<and>
   shot_cooldown fired_state = 10 \<and> muzzle_flash_timer fired_state = 5 \<and>
   bullet_impacts fired_state = [(160, 10)] \<and>
   shot_cooldown (update_timers (update_timers fired_state)) = 8 \<and>
   bullet_impacts (update_timers (update_timers fired_state)) = [(160, 8)] \<and>
   handle_input fire_keys fired_state = Inr fired_state"
proof -
  have c0: "shot_cooldown init_game = 0" by (simp add: init_game_def)
  have k: "K_SPACE fire_keys" by (simp add: fire_keys_def)
  have c1: "shot_cooldown fired_state \<noteq> 0" by (simp add: fired_state_def)
  have c2: "shot_cooldown (update_timers fired_state) \<noteq> 0"
    by (simp add: update_timers_cooldown fired_state_def)
  note again = second_request_ignored [OF c2]
  note same = fire_ignored [OF c1]
  from C6_fire_cooldown_window
         [of fired_state fire_keys fired_state init_game fire_keys fired_state "[fire_keys]"
             "update_timers (update_timers fired_state)"]
       c0 k fire_from_start again same
  show ?thesis by (simp add: fired_aged_twice) (simp add: fired_state_def)
qed

lemma cast_ray_spec_far: "cast_ray_spec far_state 0 = (100, 0)"
  by (simp add: cast_ray_spec_def hits_def ray_point_def far_state_def init_game_def
        is_wall_cell_def game_map_def py_int_def upt_conv_Cons del: upt_Suc)

lemma shoot_far: "shoot far_state = Inr missed_state"
proof -
  have r: "rectangular (gmap far_state)"
    by (simp add: far_state_def init_game_def rectangular_game_map)
  have f: "player_angle far_state = 0" "bullet_impacts far_state = []"
    by (simp_all add: far_state_def init_game_def)
  show ?thesis
    unfolding shoot_result [OF r] f missed_state_def
    by (simp add: cast_ray_spec_far) (simp add: far_state_def init_game_def)
qed

lemma fire_far: "handle_input fire_keys far_state = Inr missed_state"
proof -
  have c: "shot_cooldown far_state = 0" by (simp add: far_state_def init_game_def)
  have k: "rotated fire_keys far_state = far_state"
    by (simp add: rotated_def fire_keys_def no_keys_def)
  show ?thesis
    unfolding handle_input_steps k
    by (simp add: step_move_def step_fire_def fire_keys_def no_keys_def and_then_def c shoot_far)
qed

lemma back_step:
  assumes "n < 40"
  shows "handle_input backward_keys (init_game\<lparr>player_x := 3.5 - real n * 0.05\<rparr>) =
           Inr (init_game\<lparr>player_x := 3.5 - real (Suc n) * 0.05\<rparr>)"
proof -
  define x where "x = init_game\<lparr>player_x := 3.5 - real n * 0.05\<rparr>"
  define nx where "nx = 3.5 - real (Suc n) * 0.05"
  have k: "rotated backward_keys x = x" by (simp add: rotated_def backward_keys_def no_keys_def)
  have p: "player_x x - cos (player_angle x) * move_speed x = nx"
          "player_y x - sin (player_angle x) * move_speed x = 7 / 2"
    by (simp_all add: x_def nx_def init_game_def field_simps)
  have b: "1 \<le> nx" "nx < 4" using assms by (simp_all add: nx_def field_simps)
  define i where "i = py_int nx"
  have "1 \<le> i" "i \<le> 3" using b by (simp_all add: i_def py_int_def)
  then have "i \<in> {1, 2, 3}" by auto
  then have "py_int nx \<in> {1, 2, 3}" by (simp only: i_def)
  then have at: "map_at game_map (py_int nx) 3 = Inr 0"
    by (auto simp: map_at_def py_index_def and_then_def game_map_def)
  have y: "py_int (7 / 2) = 3" by (simp add: py_int_def)
  have g: "gmap x = game_map" by (simp add: x_def init_game_def)
  have "commit_move x nx 3.5 = Inr (x\<lparr>player_x := nx, player_y := 3.5\<rparr>)"
    by (simp add: commit_move_def g y at and_then_def)
  moreover have "x\<lparr>player_x := nx, player_y := 3.5\<rparr> = init_game\<lparr>player_x := nx\<rparr>"
    by (simp add: x_def init_game_def)
  ultimately have "step_move backward_keys Backward x = Inr (init_game\<lparr>player_x := nx\<rparr>)"
    by (simp add: step_move_def backward_keys_def no_keys_def p)
  then have "handle_input backward_keys x = Inr (init_game\<lparr>player_x := nx\<rparr>)"
    unfolding handle_input_steps k
    by (simp add: step_move_def step_fire_def backward_keys_def no_keys_def and_then_def)
  then show ?thesis by (simp add: x_def nx_def)
qed

lemma reachable_back:
  "n \<le> 40 \<Longrightarrow> reachable (init_game\<lparr>player_x := 3.5 - real n * 0.05\<rparr>)"
proof (induction n)
  case 0
  have "init_game\<lparr>player_x := 3.5 - real 0 * 0.05\<rparr> = init_game" by (simp add: init_game_def)
  then show ?case using reachable.start by simp
next
  case (Suc n)
  then have "n < 40" and "reachable (init_game\<lparr>player_x := 3.5 - real n * 0.05\<rparr>)" by simp_all
  from reachable.input [OF this(2) back_step [OF this(1)]] show ?case .
qed

lemma reachable_far: "reachable far_state"
proof -
  have "far_state = init_game\<lparr>player_x := 3.5 - real 40 * 0.05\<rparr>"
    by (simp add: far_state_def)
  then show ?thesis using reachable_back [of 40] by simp
qed

text \<open>
  Claim C6 as stated fails: from the reachable state with the player at (1.5, 3.5)
  facing east the ray ends after 200 steps without a hit, and two fire requests within
  the cooldown window reset the cooldown once but produce no impact at all.
\<close>

theorem C6_fire_twice_counterexample:
  "reachable far_state \<and> shot_cooldown far_state = 0 \<and> K_SPACE fire_keys \<and>
   handle_input fire_keys far_state = Inr missed_state \<and>
   run_ticks [fire_keys] (update_timers missed_state) =
     Inr (update_timers (update_timers missed_state)) \<and>
   shot_cooldown missed_state = 10 \<and>
   bullet_impacts far_state = [] \<and>
   bullet_impacts missed_state = [] \<and>
   bullet_impacts (update_timers (update_timers missed_state)) = [] \<and>
   length (bullet_impacts (update_timers (update_timers missed_state)))
     \<noteq> length (bullet_impacts far_state) + 1"
proof -
  have c2: "shot_cooldown (update_timers missed_state) \<noteq> 0"
    by (simp add: update_timers_cooldown missed_state_def)
  have e: "bullet_impacts far_state = []" "bullet_impacts missed_state = []"
    "shot_cooldown far_state = 0" "shot_cooldown missed_state = 10"
    by (simp_all add: missed_state_def far_state_def init_game_def)
  have e2: "bullet_impacts (update_timers (update_timers missed_state)) = []"
    by (simp add: update_timers_impacts e)
  show ?thesis
    using reachable_far fire_far second_request_ignored [OF c2] e e2
    by (simp add: fire_keys_def)
qed

section \<open>The LED array built by the streamer\<close>

lemma for_each_append:
  "for_each (as @ bs) body s = and_then (for_each as body s) (for_each bs body)"
  by (induction as arbitrary: s) (auto simp: and_then_def split: sum.splits)

lemma for_each_map:
  "for_each (map g xs) body s = for_each xs (\<lambda>x. body (g x)) s"
  by (induction xs arbitrary: s) (auto simp: and_then_def split: sum.splits)

lemma for_each_nested:
  "for_each ys (\<lambda>y. for_each xs (\<lambda>x. body y x)) s =
     for_each (concat (map (\<lambda>y. map (Pair y) xs) ys)) (\<lambda>(y, x). body y x) s"
proof (induction ys arbitrary: s)
  case Nil
  show ?case by simp
next
  case (Cons y ys)
  show ?case
    by (simp add: for_each_append for_each_map Cons.IH and_then_def split: sum.splits)
qed

lemma build_flat:
  "build_ordered_leds mapper frame_data =
     for_each loop_coords (\<lambda>(y, x). write_pixel mapper frame_data y x) (replicate 128 None)"
  unfolding build_ordered_leds_def loop_coords_def for_each_nested
  by (simp add: MATRIX_WIDTH_def MATRIX_HEIGHT_def)

lemma set_loop_coords:
  "set loop_coords = {(y, x). 0 \<le> y \<and> y < 8 \<and> 0 \<le> x \<and> x < 16}"
proof -
  have r: "set (py_range n) = {i. 0 \<le> i \<and> i < n}" for n
    unfolding py_range_def by (auto simp: image_int_atLeastLessThan)
  show ?thesis
    by (auto simp: loop_coords_def r MATRIX_WIDTH_def MATRIX_HEIGHT_def)
qed

lemma py_assign_slot:
  assumes "py_assign leds idx v = Inr leds'" and "length leds = 128"
  shows "leds' = leds[slot idx := v] \<and> slot idx < 128"
  using assms by (auto simp: py_assign_def slot_def split: if_splits)

lemma py_index_nonneg:
  assumes "py_index xs i = Inr v" and "0 \<le> i"
  shows "v = xs ! nat i"
  using assms by (auto simp: py_index_def split: if_splits)

lemma write_pixel_slot:
  assumes "write_pixel mapper frame_data y x leds = Inr leds'" and "length leds = 128"
    and "0 \<le> y" and "0 \<le> x"
  shows "leds' = leds[slot (mapper x y) := Some (led_of frame_data (nat y) (nat x))] \<and>
         slot (mapper x y) < 128"
proof -
  from assms(1) obtain row pixel p0 p1 p2 where
    a: "py_index frame_data y = Inr row" "py_index row x = Inr pixel"
       "py_index pixel 0 = Inr p0" "py_index pixel 1 = Inr p1" "py_index pixel 2 = Inr p2"
       "py_assign leds (mapper x y) (Some [uint p0, uint p1, uint p2]) = Inr leds'"
    by (auto simp: write_pixel_def frame_at_def Let_def and_then_eq_Inr)
  have "row = frame_data ! nat y" using py_index_nonneg [OF a(1) assms(3)] .
  moreover have "pixel = row ! nat x" using py_index_nonneg [OF a(2) assms(4)] .
  moreover have "p0 = pixel ! 0" "p1 = pixel ! 1" "p2 = pixel ! 2"
    using py_index_nonneg [OF a(3)] py_index_nonneg [OF a(4)] py_index_nonneg [OF a(5)]
    by simp_all
  ultimately have "[uint p0, uint p1, uint p2] = led_of frame_data (nat y) (nat x)"
    by (simp add: led_of_def)
  with py_assign_slot [OF a(6) assms(2)] show ?thesis by simp
qed


lemma fill_trace:
  assumes "for_each cs (\<lambda>(y, x). write_pixel mapper frame_data y x) leds0 = Inr leds"
    and "length leds0 = 128"
    and "\<forall>(y, x)\<in>set cs. 0 \<le> y \<and> 0 \<le> x"
  shows "length leds = 128 \<and>
         (\<forall>i<128.
            if \<exists>(y, x)\<in>set cs. slot (mapper x y) = i
            then \<exists>(y, x)\<in>set cs. slot (mapper x y) = i \<and>
                   leds ! i = Some (led_of frame_data (nat y) (nat x))
            else leds ! i = leds0 ! i)"
  using assms
proof (induction cs arbitrary: leds0)
  case Nil
  then show ?case by simp
next
  case (Cons c cs)
  obtain y x where c: "c = (y, x)" by (cases c)
  from Cons.prems(1) obtain leds1 where
    w: "write_pixel mapper frame_data y x leds0 = Inr leds1"
    and rest: "for_each cs (\<lambda>(y, x). write_pixel mapper frame_data y x) leds1 = Inr leds"
    by (auto simp: c and_then_eq_Inr)
  have nn: "0 \<le> y" "0 \<le> x" using Cons.prems(3) by (simp_all add: c)
  from write_pixel_slot [OF w Cons.prems(2) nn]
  have l1: "leds1 = leds0[slot (mapper x y) := Some (led_of frame_data (nat y) (nat x))]"
    and sl: "slot (mapper x y) < 128" by simp_all
  have len1: "length leds1 = 128" using l1 Cons.prems(2) by simp
  have pos: "\<forall>(y, x)\<in>set cs. 0 \<le> y \<and> 0 \<le> x" using Cons.prems(3) by simp
  note ih = Cons.IH [OF rest len1 pos]
  show ?case
  proof (intro conjI allI impI)
    show "length leds = 128" using ih by simp
  next
    fix i :: nat assume i: "i < 128"
    from ih i have tail:
      "if \<exists>(y, x)\<in>set cs. slot (mapper x y) = i
       then \<exists>(y, x)\<in>set cs. slot (mapper x y) = i \<and>
              leds ! i = Some (led_of frame_data (nat y) (nat x))
       else leds ! i = leds1 ! i" by blast
    show "if \<exists>(y, x)\<in>set (c # cs). slot (mapper x y) = i
          then \<exists>(y, x)\<in>set (c # cs). slot (mapper x y) = i \<and>
                 leds ! i = Some (led_of frame_data (nat y) (nat x))
          else leds ! i = leds0 ! i"
    proof (cases "\<exists>(y, x)\<in>set cs. slot (mapper x y) = i")
      case True
      with tail show ?thesis by auto
    next
      case later: False
      with tail have e: "leds ! i = leds1 ! i" by simp
      show ?thesis
      proof (cases "slot (mapper x y) = i")
        case True
        then have "leds ! i = Some (led_of frame_data (nat y) (nat x))"
          using e l1 i Cons.prems(2) by simp
        with True show ?thesis by (auto simp: c)
      next
        case False
        then have "leds ! i = leds0 ! i" using e l1 by simp
        with False later show ?thesis by (auto simp: c)
      qed
    qed
  qed
qed

lemma for_each_total:
  assumes "\<And>c s. c \<in> set cs \<Longrightarrow> P s \<Longrightarrow> \<exists>s'. body c s = Inr s' \<and> P s'" and "P s0"
  shows "\<exists>s'. for_each cs body s0 = Inr s' \<and> P s'"
  using assms
proof (induction cs arbitrary: s0)
  case Nil
  then show ?case by simp
next
  case (Cons c cs)
  from Cons.prems(1) [of c s0] Cons.prems(2) obtain s1 where
    s1: "body c s0 = Inr s1" "P s1" by auto
  have "\<exists>s'. for_each cs body s1 = Inr s' \<and> P s'"
    by (rule Cons.IH) (use Cons.prems(1) s1(2) in auto)
  with s1(1) show ?case by (simp add: and_then_def)
qed

lemma frame_shape_pixel:
  assumes "frame_shape frame_data" and "0 \<le> y" "y < 8" "0 \<le> x" "x < 16"
  shows "frame_at frame_data y x = Inr (frame_data ! nat y ! nat x) \<and>
         length (frame_data ! nat y ! nat x) = 3"
proof -
  have ly: "length frame_data = 8" using assms(1) by (simp add: frame_shape_def)
  have "nat y < length frame_data" using assms(2,3) ly by linarith
  then have "frame_data ! nat y \<in> set frame_data" by (rule nth_mem)
  then have row: "length (frame_data ! nat y) = 16"
    "list_all (\<lambda>pixel. length pixel = 3) (frame_data ! nat y)"
    using assms(1) by (auto simp: frame_shape_def list_all_iff)
  have "nat x < length (frame_data ! nat y)" using assms(4,5) row(1) by linarith
  then have "frame_data ! nat y ! nat x \<in> set (frame_data ! nat y)" by (rule nth_mem)
  then have "length (frame_data ! nat y ! nat x) = 3" using row(2) by (simp add: list_all_iff)
  moreover have "frame_at frame_data y x = Inr (frame_data ! nat y ! nat x)"
    using assms(2-5) ly row(1) by (simp add: frame_at_def py_index_def and_then_def)
  ultimately show ?thesis by simp
qed

lemma write_pixel_shaped:
  assumes "frame_shape frame_data" and "0 \<le> y" "y < 8" "0 \<le> x" "x < 16"
    and "length leds = 128" and "0 \<le> mapper x y" "mapper x y < 128"
  shows "\<exists>leds'. write_pixel mapper frame_data y x leds = Inr leds' \<and> length leds' = 128"
proof -
  from frame_shape_pixel [OF assms(1-5)]
  have "frame_at frame_data y x = Inr (frame_data ! nat y ! nat x)"
    and "length (frame_data ! nat y ! nat x) = 3" by simp_all
  then show ?thesis
    using assms(6-8)
    by (auto simp: write_pixel_def Let_def and_then_def py_index_def py_assign_def)
qed

lemma build_total:
  assumes "frame_shape frame_data"
    and "\<And>x y. 0 \<le> x \<Longrightarrow> x < 16 \<Longrightarrow> 0 \<le> y \<Longrightarrow> y < 8 \<Longrightarrow> 0 \<le> mapper x y \<and> mapper x y < 128"
  shows "\<exists>leds. build_ordered_leds mapper frame_data = Inr leds \<and> length leds = 128"
  unfolding build_flat
proof (rule for_each_total [where P = "\<lambda>l. length l = 128"])
  fix c :: "int \<times> int" and s :: "led option list"
  assume c: "c \<in> set loop_coords" and s: "length s = 128"
  obtain y x where yx: "c = (y, x)" by (cases c)
  with c have r: "0 \<le> y" "y < 8" "0 \<le> x" "x < 16" by (simp_all add: set_loop_coords)
  from assms(2) [OF r(3,4,1,2)] have m: "0 \<le> mapper x y" "mapper x y < 128" by simp_all
  from write_pixel_shaped [where mapper = mapper, OF assms(1) r s m]
  show "\<exists>s'. (case c of (y, x) \<Rightarrow> write_pixel mapper frame_data y x) s = Inr s' \<and> length s' = 128"
    by (simp add: yx)
next
  show "length (replicate 128 (None :: led option)) = 128" by simp
qed

lemma build_trace:
  assumes "build_ordered_leds mapper frame_data = Inr leds"
  shows "length leds = 128 \<and>
         (\<forall>i<128.
            if \<exists>(y, x)\<in>set loop_coords. slot (mapper x y) = i
            then \<exists>(y, x)\<in>set loop_coords. slot (mapper x y) = i \<and>
                   leds ! i = Some (led_of frame_data (nat y) (nat x))
            else leds ! i = None)"
proof -
  have pos: "\<forall>(y, x)\<in>set loop_coords. 0 \<le> y \<and> 0 \<le> x" by (auto simp: set_loop_coords)
  from fill_trace [OF assms [unfolded build_flat] _ pos]
  show ?thesis by simp
qed

section \<open>Row-major order of the streamed frame\<close>

lemma native_decode:
  assumes "0 \<le> x" "x < 16" "0 \<le> y" "0 \<le> x'" "x' < 16" "0 \<le> y'"
    and "slot (rgb_to_wled_index x' y') = nat (y * 16 + x)"
  shows "x' = x \<and> y' = y"
proof -
  have "nat (y' * 16 + x') = nat (y * 16 + x)"
    using assms by (simp add: slot_def rgb_to_wled_index_def MATRIX_WIDTH_def)
  then have "y' * 16 + x' = y * 16 + x" using assms(1-6) by simp
  then show ?thesis using assms(1-6) by presburger
qed

lemma native_in_range:
  assumes "0 \<le> x" "x < 16" "0 \<le> y" "y < 8"
  shows "0 \<le> rgb_to_wled_index x y \<and> rgb_to_wled_index x y < 128"
  using assms by (simp add: rgb_to_wled_index_def MATRIX_WIDTH_def)

lemma native_entries:
  assumes b: "build_ordered_leds rgb_to_wled_index frame_data = Inr leds"
    and r: "0 \<le> x" "x < 16" "0 \<le> y" "y < 8"
  shows "leds ! nat (y * 16 + x) = Some (led_of frame_data (nat y) (nat x))"
proof -
  define i where "i = nat (y * 16 + x)"
  have i: "i < 128" using r by (simp add: i_def)
  have mem: "(y, x) \<in> set loop_coords" using r by (simp add: set_loop_coords)
  have sl: "slot (rgb_to_wled_index x y) = i"
    using r by (simp add: slot_def rgb_to_wled_index_def MATRIX_WIDTH_def i_def)
  from mem sl have ex: "\<exists>(y, x)\<in>set loop_coords. slot (rgb_to_wled_index x y) = i" by blast
  from build_trace [OF b] i ex obtain y' x' where
    c: "(y', x') \<in> set loop_coords" "slot (rgb_to_wled_index x' y') = i"
       "leds ! i = Some (led_of frame_data (nat y') (nat x'))"
    by (auto split: if_splits)
  from c(1) have r': "0 \<le> y'" "0 \<le> x'" "x' < 16" by (simp_all add: set_loop_coords)
  from native_decode [OF r(1,2,3) r'(2,3,1) c(2) [unfolded i_def]]
  have "x' = x" "y' = y" by simp_all
  with c(3) show ?thesis by (simp add: i_def)
qed

lemma send_posts_array:
  assumes "build_ordered_leds mapper frame_data = Inr leds"
  shows "fst (send_frame_to_wled_with mapper post clock st frame_data) =
           (post (wled_payload leds) = Response 200)"
  using assms
  by (cases clock; cases "post (wled_payload leds)")
    (simp_all add: send_frame_to_wled_with_def send_frame_try_def Let_def)

lemma frame_shape_red: "frame_shape red_frame"
  by (simp add: frame_shape_def red_frame_def list_all_iff)

lemma led_of_red:
  assumes "y < 8" "x < 16"
  shows "led_of red_frame y x = [255, 0, 0]"
  using assms by (simp add: led_of_def red_frame_def)

text \<open>
  Claim C4.  For every frame of 8 rows of 16 three-channel pixels,
  \<^verbatim>\<open>send_frame_to_wled\<close> builds without raising an array \<^verbatim>\<open>ordered_leds\<close> of length
  128 = MATRIX_WIDTH * MATRIX_HEIGHT whose entry \<open>y * 16 + x\<close> is the integer triple
  \<open>[r, g, b]\<close> of the frame pixel at row \<open>y\<close>, column \<open>x\<close>, and it is this array that is
  posted.  For the solid red frame every entry is \<open>[255, 0, 0]\<close> (lemma \<open>red_array\<close>).
\<close>

theorem C4_native_frame_order:
  assumes "frame_shape frame_data"
  shows "\<exists>ordered_leds.
           build_ordered_leds rgb_to_wled_index frame_data = Inr ordered_leds \<and>
           length ordered_leds = nat (MATRIX_WIDTH * MATRIX_HEIGHT) \<and>
           length ordered_leds = 128 \<and>
           (\<forall>x y. 0 \<le> x \<and> x < 16 \<and> 0 \<le> y \<and> y < 8 \<longrightarrow>
              ordered_leds ! nat (y * 16 + x) = Some (led_of frame_data (nat y) (nat x))) \<and>
           (\<forall>post clock st.
              fst (send_frame_to_wled post clock st frame_data) =
                (post (wled_payload ordered_leds) = Response 200))"
proof -
  from build_total [OF assms, of rgb_to_wled_index] native_in_range
  obtain leds where b: "build_ordered_leds rgb_to_wled_index frame_data = Inr leds"
    and l: "length leds = 128" by blast
  have "\<forall>x y. 0 \<le> x \<and> x < 16 \<and> 0 \<le> y \<and> y < 8 \<longrightarrow>
              leds ! nat (y * 16 + x) = Some (led_of frame_data (nat y) (nat x))"
    using native_entries [OF b] by blast
  moreover have "\<forall>post clock st.
              fst (send_frame_to_wled post clock st frame_data) =
                (post (wled_payload leds) = Response 200)"
    unfolding send_frame_to_wled_def using send_posts_array [OF b] by blast
  ultimately show ?thesis using b l by (auto simp: MATRIX_WIDTH_def MATRIX_HEIGHT_def)
qed

lemma red_array:
  "build_ordered_leds rgb_to_wled_index red_frame = Inr (replicate 128 (Some [255, 0, 0]))"
proof -
  from build_total [OF frame_shape_red, of rgb_to_wled_index] native_in_range
  obtain leds where b: "build_ordered_leds rgb_to_wled_index red_frame = Inr leds"
    and l: "length leds = 128" by blast
  have "leds ! i = Some [255, 0, 0]" if "i < 128" for i
  proof -
    have r: "0 \<le> int i mod 16" "int i mod 16 < 16" "0 \<le> int i div 16" "int i div 16 < 8"
      using that by simp_all
    have "nat (int i div 16 * 16 + int i mod 16) = i" by simp
    with native_entries [OF b r]
    have "leds ! i = Some (led_of red_frame (nat (int i div 16)) (nat (int i mod 16)))" by simp
    moreover have "nat (int i div 16) < 8" "nat (int i mod 16) < 16" using r by linarith+
    ultimately show ?thesis by (simp add: led_of_red)
  qed
  then have "leds = replicate 128 (Some [255, 0, 0])"
    using l by (intro nth_equalityI) simp_all
  with b show ?thesis by simp
qed

theorem C4_native_frame_order_witness:
  "frame_shape red_frame \<and>
   (\<exists>ordered_leds.
      build_ordered_leds rgb_to_wled_index red_frame = Inr ordered_leds \<and>
      ordered_leds = replicate 128 (Some [255, 0, 0]) \<and>
      length ordered_leds = 128 \<and>
      ordered_leds ! nat (2 * 16 + 5) = Some (led_of red_frame 2 5) \<and>
      fst (send_frame_to_wled accepting_post (0, 0, 0) (init_streamer 0 0) red_frame))"
proof -
  from C4_native_frame_order [OF frame_shape_red]
  obtain leds where b: "build_ordered_leds rgb_to_wled_index red_frame = Inr leds"
    and l: "length leds = 128"
    and e: "\<forall>x y. 0 \<le> x \<and> x < 16 \<and> 0 \<le> y \<and> y < 8 \<longrightarrow>
              leds ! nat (y * 16 + x) = Some (led_of red_frame (nat y) (nat x))"
    and p: "\<forall>post clock st. fst (send_frame_to_wled post clock st red_frame) =
              (post (wled_payload leds) = Response 200)"
    by blast
  from e [rule_format, of 5 2] have "leds ! nat (2 * 16 + 5) = Some (led_of red_frame 2 5)"
    by simp
  moreover have "leds = replicate 128 (Some [255, 0, 0])" using b red_array by simp
  moreover have "fst (send_frame_to_wled accepting_post (0, 0, 0) (init_streamer 0 0) red_frame)"
    using p by (simp add: accepting_post_def)
  ultimately show ?thesis using frame_shape_red b l by blast
qed

section \<open>Indices that are not written\<close>







section \<open>Transmission failures are swallowed\<close>

lemma send_result:
  "send_frame_to_wled post clock st frame_data =
     (case build_ordered_leds rgb_to_wled_index frame_data of
        Inl e \<Rightarrow> (False, st)
      | Inr leds \<Rightarrow>
          (case post (wled_payload leds) of
             Raised e \<Rightarrow> (False, st)
           | Response code \<Rightarrow>
               (code = 200, snd (send_frame_to_wled post clock st frame_data))))"
  by (cases clock)
    (simp add: send_frame_to_wled_def send_frame_to_wled_with_def send_frame_try_def Let_def
       split: sum.splits http_result.splits)

lemma loop_body_game:
  "game_after (loop_body ks downscaled post current_time clock ls) =
   game_after (loop_body ks downscaled post' current_time clock' ls)"
proof -
  obtain g st last where ls: "ls = (g, st, last)" by (cases ls)
  show ?thesis
  proof (cases "handle_input ks g")
    case (Inl e)
    then show ?thesis by (simp add: loop_body_def ls and_then_def game_after_def)
  next
    case (Inr g1)
    show ?thesis
    proof (cases "render (update_timers g1)")
      case (Inl e)
      with Inr show ?thesis by (simp add: loop_body_def ls and_then_def game_after_def Let_def)
    next
      case r: (Inr drawn)
      obtain ok1 st1 where a: "send_frame_to_wled post clock st downscaled = (ok1, st1)"
        by (cases "send_frame_to_wled post clock st downscaled")
      obtain ok2 st2 where b: "send_frame_to_wled post' clock' st downscaled = (ok2, st2)"
        by (cases "send_frame_to_wled post' clock' st downscaled")
      from Inr r a b show ?thesis
        by (simp add: loop_body_def ls and_then_def game_after_def Let_def)
    qed
  qed
qed

text \<open>
  Claim C5.  \<^verbatim>\<open>send_frame_to_wled\<close> always returns a boolean and a streamer, whatever
  the network does: the boolean is \<open>True\<close> exactly when the array was built and the
  response has status code 200; when the post raises (a timeout, a connection error or
  any other exception), and also when building the array raises, it returns \<open>False\<close> and
  leaves the streamer as it was.  The game object and the time of the last stream after
  an iteration of the main loop do not depend on the outcome of the post.
\<close>

theorem C5_send_never_raises:
  "(\<exists>ok st'. send_frame_to_wled post clock st frame_data = (ok, st') \<and>
      (ok \<longleftrightarrow> (\<exists>leds. build_ordered_leds rgb_to_wled_index frame_data = Inr leds \<and>
                       post (wled_payload leds) = Response 200))) \<and>
   (build_ordered_leds rgb_to_wled_index frame_data = Inr leds \<and>
    post (wled_payload leds) = Raised e
      \<longrightarrow> send_frame_to_wled post clock st frame_data = (False, st)) \<and>
   (build_ordered_leds rgb_to_wled_index frame_data = Inl e'
      \<longrightarrow> send_frame_to_wled post clock st frame_data = (False, st)) \<and>
   game_after (loop_body ks downscaled post current_time clock ls) =
     game_after (loop_body ks downscaled post' current_time clock' ls)"
proof (intro conjI)
  show "\<exists>ok st'. send_frame_to_wled post clock st frame_data = (ok, st') \<and>
      (ok \<longleftrightarrow> (\<exists>leds. build_ordered_leds rgb_to_wled_index frame_data = Inr leds \<and>
                       post (wled_payload leds) = Response 200))"
  proof -
    obtain ok st' where p: "send_frame_to_wled post clock st frame_data = (ok, st')"
      by (cases "send_frame_to_wled post clock st frame_data")
    have "ok \<longleftrightarrow> (\<exists>leds. build_ordered_leds rgb_to_wled_index frame_data = Inr leds \<and>
                       post (wled_payload leds) = Response 200)"
    proof (cases "build_ordered_leds rgb_to_wled_index frame_data")
      case (Inl e)
      then show ?thesis using send_result [of post clock st frame_data] p by simp
    next
      case (Inr leds)
      then show ?thesis
        using send_result [of post clock st frame_data] p
        by (cases "post (wled_payload leds)") simp_all
    qed
    with p show ?thesis by blast
  qed
next
  show "build_ordered_leds rgb_to_wled_index frame_data = Inr leds \<and>
    post (wled_payload leds) = Raised e
      \<longrightarrow> send_frame_to_wled post clock st frame_data = (False, st)"
    using send_result [of post clock st frame_data] by auto
next
  show "build_ordered_leds rgb_to_wled_index frame_data = Inl e'
      \<longrightarrow> send_frame_to_wled post clock st frame_data = (False, st)"
    using send_result [of post clock st frame_data] by auto
next
  show "game_after (loop_body ks downscaled post current_time clock ls) =
     game_after (loop_body ks downscaled post' current_time clock' ls)"
    by (rule loop_body_game)
qed

lemma empty_frame_raises: "build_ordered_leds rgb_to_wled_index [] = Inl IndexError"
  by (simp add: build_flat loop_coords_def py_range_def MATRIX_WIDTH_def MATRIX_HEIGHT_def
        upt_conv_Cons write_pixel_def frame_at_def py_index_def and_then_def del: upt_Suc)

theorem C5_send_never_raises_witness:
  "build_ordered_leds rgb_to_wled_index red_frame = Inr (replicate 128 (Some [255, 0, 0])) \<and>
   timeout_post (wled_payload (replicate 128 (Some [255, 0, 0]))) = Raised Timeout \<and>
   send_frame_to_wled timeout_post (0, 0, 0) (init_streamer 0 0) red_frame
     = (False, init_streamer 0 0) \<and>
   build_ordered_leds rgb_to_wled_index [] = Inl IndexError \<and>
   send_frame_to_wled accepting_post (0, 0, 0) (init_streamer 0 0) []
     = (False, init_streamer 0 0) \<and>
   fst (send_frame_to_wled accepting_post (0, 0, 0) (init_streamer 0 0) red_frame)"
proof -
  have t: "timeout_post (wled_payload (replicate 128 (Some [255, 0, 0]))) = Raised Timeout"
    by (simp add: timeout_post_def)
  have a: "accepting_post (wled_payload (replicate 128 (Some [255, 0, 0]))) = Response 200"
    by (simp add: accepting_post_def)
  from C5_send_never_raises
         [of timeout_post "(0, 0, 0)" "init_streamer 0 0" red_frame
             "replicate 128 (Some [255, 0, 0])" Timeout]
       red_array t
  have one: "send_frame_to_wled timeout_post (0, 0, 0) (init_streamer 0 0) red_frame
               = (False, init_streamer 0 0)"
    by blast
  from C5_send_never_raises
         [of accepting_post "(0, 0, 0)" "init_streamer 0 0" "[]" _ _ IndexError]
       empty_frame_raises
  have two: "send_frame_to_wled accepting_post (0, 0, 0) (init_streamer 0 0) []
               = (False, init_streamer 0 0)"
    by blast
  from C5_send_never_raises
         [of accepting_post "(0, 0, 0)" "init_streamer 0 0" red_frame, THEN conjunct1]
  obtain ok st' where
    p: "send_frame_to_wled accepting_post (0, 0, 0) (init_streamer 0 0) red_frame = (ok, st')"
    and q: "ok \<longleftrightarrow> (\<exists>leds. build_ordered_leds rgb_to_wled_index red_frame = Inr leds \<and>
                          accepting_post (wled_payload leds) = Response 200)"
    by blast
  have "ok" unfolding q using red_array a by blast
  with p have three:
    "fst (send_frame_to_wled accepting_post (0, 0, 0) (init_streamer 0 0) red_frame)"
    by simp
  from red_array t one empty_frame_raises two three show ?thesis by blast
qed

end
